theory Spec2Isabelle
  imports Complex_Main "HOL-Library.Sublist" "HOL-Library.AList"
begin

section \<open>JavaScript strings\<close>

text \<open>
  A JavaScript string is modelled as a \<^typ>\<open>string\<close> whose characters are the code
  units 0..255 (the Latin-1 range). On that range \<open>toLowerCase\<close> maps A-Z and the
  accented capitals 192..222 (except the multiplication sign 215) 32 positions up, and
  the white space of \<open>trim\<close> and of the regular expression \<open>\s\<close> is TAB, LF, VT, FF,
  CR, SPACE and NBSP.
\<close>

definition is_space :: "char \<Rightarrow> bool" where
  "is_space c = (of_char c \<in> {9, 10, 11, 12, 13, 32, 160 :: nat})"

definition toLowerChar :: "char \<Rightarrow> char" where
  "toLowerChar c =
     (let n = (of_char c :: nat)
      in if (65 \<le> n \<and> n \<le> 90) \<or> (192 \<le> n \<and> n \<le> 222 \<and> n \<noteq> 215)
         then char_of (n + 32) else c)"

definition toLowerCase :: "string \<Rightarrow> string" where
  "toLowerCase s = map toLowerChar s"

definition trim :: "string \<Rightarrow> string" where
  "trim s = rev (dropWhile is_space (rev (dropWhile is_space s)))"

text \<open>\<open>s.includes(t)\<close>: \<open>t\<close> occurs in \<open>s\<close> as a contiguous run; the empty string
  occurs in every string.\<close>

fun includes_str :: "string \<Rightarrow> string \<Rightarrow> bool" where
  "includes_str [] t = (t = [])"
| "includes_str (c # s) t = (prefix t (c # s) \<or> includes_str s t)"

text \<open>
  \<open>s.split(/\s+/)\<close>: the pieces of \<open>s\<close> between the maximal runs of white space. The
  result is never empty: the empty string gives one empty piece, and white space at
  the start or at the end of \<open>s\<close> gives an empty first or last piece.
\<close>

function split_ws :: "string \<Rightarrow> string list" where
  "split_ws s =
     (let w = takeWhile (\<lambda>c. \<not> is_space c) s;
          r = dropWhile (\<lambda>c. \<not> is_space c) s
      in if r = [] then [w] else w # split_ws (dropWhile is_space r))"
  by pat_completeness auto
termination
proof (relation "measure length")
  fix s :: string and w r
  assume r: "r = dropWhile (\<lambda>c. \<not> is_space c) s" and ne: "r \<noteq> []"
  from ne obtain c cs where rc: "r = c # cs" by (cases r) auto
  have "\<not> \<not> is_space (hd (dropWhile (\<lambda>c. \<not> is_space c) s))"
    using ne unfolding r by (rule hd_dropWhile)
  then have "is_space c"
    using r rc by (metis list.sel(1))
  then have "length (dropWhile is_space r) \<le> length cs"
    using rc by (simp add: length_dropWhile_le)
  moreover have "length r \<le> length s"
    unfolding r by (rule length_dropWhile_le)
  ultimately show "(dropWhile is_space r, s) \<in> measure length"
    using rc by simp
qed simp

declare split_ws.simps [simp del]

section \<open>Knowledge entries and the relevance score\<close>

text \<open>
  A knowledge entry as \<open>createEntry\<close> builds it. The fields \<open>id\<close>, \<open>key\<close>, \<open>value\<close>
  and \<open>tags\<close> carry the prefix \<open>entry_\<close>; time stamps are clock readings in
  milliseconds.
\<close>

record knowledge_entry =
  entry_id :: string
  entry_key :: string
  entry_value :: string
  entry_tags :: "string list"
  createdAt :: nat
  updatedAt :: nat

text \<open>\<open>KnowledgeBase.calculateRelevanceScore\<close>: the running \<open>score\<close> is threaded
  through the four tests and the two nested \<open>for\<close> loops.\<close>

definition calculateRelevanceScore :: "knowledge_entry \<Rightarrow> string \<Rightarrow> int" where
  "calculateRelevanceScore entry searchTerm =
     (let score = 0;
          key = toLowerCase (entry_key entry);
          val = toLowerCase (entry_value entry);
          tags = map toLowerCase (entry_tags entry);
          score = (if key = searchTerm then score + 100
                   else if includes_str key searchTerm then score + 50
                   else score);
          score = (if searchTerm \<in> set tags then score + 40 else score);
          score = (if includes_str val searchTerm then score + 20 else score);
          keyWords = split_ws key;
          searchWords = split_ws searchTerm
      in fold (\<lambda>searchWord.
                 fold (\<lambda>keyWord score.
                         if includes_str keyWord searchWord \<or> includes_str searchWord keyWord
                         then score + 10 else score)
                      keyWords)
              searchWords score)"

text \<open>
  The additive formula of the specification, in its own words: substring is
  \<^const>\<open>sublist\<close> (some prefix and suffix around it), the tag bonus asks for a tag
  equal to the query, and the word bonus counts the pairs of the product of the
  query's words and the key's words.
\<close>

definition word_pairs :: "string \<Rightarrow> string \<Rightarrow> (string \<times> string) list" where
  "word_pairs query key =
     filter (\<lambda>(qw, kw). sublist qw kw \<or> sublist kw qw)
       (List.product (split_ws query) (split_ws key))"

definition additive_score :: "knowledge_entry \<Rightarrow> string \<Rightarrow> int" where
  "additive_score entry query =
     (let key = toLowerCase (entry_key entry);
          val = toLowerCase (entry_value entry)
      in (if key = query then 100 else if sublist query key then 50 else 0)
       + (if \<exists>t \<in> set (entry_tags entry). toLowerCase t = query then 40 else 0)
       + (if sublist query val then 20 else 0)
       + 10 * int (length (word_pairs query key)))"

section \<open>Array helpers of the JavaScript library\<close>

text \<open>
  \<open>xs.slice(start, end)\<close>: a negative index counts from the end of the array, and both
  indices are clamped to the array. \<open>xs.slice(start)\<close> is \<open>js_slice xs start (length xs)\<close>.
\<close>

definition js_slice :: "'a list \<Rightarrow> int \<Rightarrow> int \<Rightarrow> 'a list" where
  "js_slice xs start stop =
     (let len = int (length xs);
          k = (if start < 0 then max (len + start) 0 else min start len);
          final = (if stop < 0 then max (len + stop) 0 else min stop len)
      in take (nat (final - k)) (drop (nat k) xs))"

text \<open>
  \<open>xs.sort(compare)\<close>: \<open>a\<close> comes before \<open>b\<close> when \<open>compare(a, b) < 0\<close>, and elements
  that compare equal keep their order (the sort is stable since ECMAScript 2019). The
  model is insertion sort, inserting from the right.
\<close>

fun js_insert :: "('a \<Rightarrow> 'a \<Rightarrow> int) \<Rightarrow> 'a \<Rightarrow> 'a list \<Rightarrow> 'a list" where
  "js_insert compare x [] = [x]"
| "js_insert compare x (y # ys) =
     (if compare x y \<le> 0 then x # y # ys else y # js_insert compare x ys)"

definition js_sort :: "('a \<Rightarrow> 'a \<Rightarrow> int) \<Rightarrow> 'a list \<Rightarrow> 'a list" where
  "js_sort compare xs = foldr (js_insert compare) xs []"

section \<open>Ranked search over a list of entries\<close>

text \<open>
  What \<open>searchEntries\<close> returns: the entries themselves for a blank query, and for any
  other query the copies \<open>{...entry, relevanceScore: score}\<close>, an entry paired with
  its score.
\<close>

datatype search_result =
  Plain "knowledge_entry list"
| Scored "(knowledge_entry \<times> int) list"

definition result_entries :: "search_result \<Rightarrow> knowledge_entry list" where
  "result_entries r = (case r of Plain es \<Rightarrow> es | Scored rs \<Rightarrow> map fst rs)"

text \<open>
  Lines 282 to 299 of \<open>searchEntries\<close>, on the entries that \<open>getAllEntries\<close> returned.
  \<open>!query\<close> holds of the empty string. The \<open>for\<close> loop pushes the entries with a
  positive score onto \<open>results\<close>.
\<close>

definition searchEntries_on :: "knowledge_entry list \<Rightarrow> string \<Rightarrow> int \<Rightarrow> search_result" where
  "searchEntries_on entries query limit =
     (if query = [] \<or> trim query = [] then Plain (js_slice entries 0 limit)
      else
        let searchTerm = trim (toLowerCase query);
            results =
              fold (\<lambda>entry results.
                      let score = calculateRelevanceScore entry searchTerm
                      in if score > 0 then results @ [(entry, score)] else results)
                   entries []
        in Scored (js_slice (js_sort (\<lambda>a b. snd b - snd a) results) 0 limit))"

section \<open>Errors\<close>

text \<open>
  The values the code throws and catches: the built-in error classes with their
  message, a file-system error with its \<open>code\<close> and message, and any other value the
  external completion service may throw, with its \<open>message\<close> property when it has one.
\<close>

datatype js_error =
  Error string
| SyntaxError string
| TypeError string
| SystemError string string
| Thrown "string option"

fun message :: "js_error \<Rightarrow> string option" where
  "message (Error m) = Some m"
| "message (SyntaxError m) = Some m"
| "message (TypeError m) = Some m"
| "message (SystemError c m) = Some m"
| "message (Thrown m) = m"

fun code :: "js_error \<Rightarrow> string option" where
  "code (SystemError c m) = Some c"
| "code e = None"

fun instanceof_SyntaxError :: "js_error \<Rightarrow> bool" where
  "instanceof_SyntaxError (SyntaxError m) = True"
| "instanceof_SyntaxError e = False"

text \<open>\<open>${error.message}\<close> in a template literal: a missing message prints as
  \<open>undefined\<close>.\<close>

definition message_text :: "js_error \<Rightarrow> string" where
  "message_text e = (case message e of Some m \<Rightarrow> m | None \<Rightarrow> ''undefined'')"

section \<open>The completion gateway (\<open>GeminiService\<close>)\<close>

record model_tier =
  name :: string
  tier :: string

text \<open>
  The fields of a \<open>GeminiService\<close>. \<open>timers\<close> holds the delays of the callbacks that
  \<open>setTimeout\<close> has scheduled and that have not run; each of them will call
  \<open>resetToHighestTier\<close>.
\<close>

record gemini_service =
  modelTiers :: "model_tier list"
  currentModelIndex :: nat
  lastFailureTime :: "nat option"
  retryDelay :: nat
  timers :: "nat list"

text \<open>The constructor, given the value of the environment variable
  \<open>GEMINI_API_KEY\<close>; an unset and an empty variable are both falsy.\<close>

definition new_GeminiService :: "string option \<Rightarrow> js_error + gemini_service" where
  "new_GeminiService apiKey =
     (if apiKey = None \<or> apiKey = Some []
      then Inl (Error ''GEMINI_API_KEY environment variable is required'')
      else Inr \<lparr>modelTiers =
                  [\<lparr>name = ''gemini-2.0-flash-exp'', tier = ''pro''\<rparr>,
                   \<lparr>name = ''gemini-1.5-flash'', tier = ''flash''\<rparr>,
                   \<lparr>name = ''gemini-1.5-flash-8b'', tier = ''flash-lite''\<rparr>],
                currentModelIndex = 0,
                lastFailureTime = None,
                retryDelay = 60000,
                timers = []\<rparr>)"

text \<open>
  \<open>getCurrentModel\<close> reads \<open>this.modelTiers[this.currentModelIndex]\<close> and asks the
  client library for the model of that name; the model handle is the tier itself.
  Outside the array the read gives \<open>undefined\<close>, and reading its \<open>name\<close> throws a
  \<open>TypeError\<close>.
\<close>

definition getCurrentModel :: "gemini_service \<Rightarrow> js_error + model_tier" where
  "getCurrentModel g =
     (if currentModelIndex g < length (modelTiers g)
      then Inr (modelTiers g ! currentModelIndex g)
      else Inl (TypeError ''Cannot read properties of undefined''))"

text \<open>\<open>switchToNextTier\<close> returns whether it switched, and the service after it.\<close>

definition switchToNextTier :: "gemini_service \<Rightarrow> bool \<times> gemini_service" where
  "switchToNextTier g =
     (if int (currentModelIndex g) < int (length (modelTiers g)) - 1
      then (True, g\<lparr>currentModelIndex := currentModelIndex g + 1\<rparr>)
      else (False, g))"

definition resetToHighestTier :: "gemini_service \<Rightarrow> gemini_service" where
  "resetToHighestTier g =
     (if currentModelIndex g > 0 then g\<lparr>currentModelIndex := 0\<rparr> else g)"

definition quotaErrorMessages :: "string list" where
  "quotaErrorMessages =
     [''quota exceeded'', ''rate limit'', ''too many requests'', ''resource exhausted'',
      ''RATE_LIMIT_EXCEEDED'', ''QUOTA_EXCEEDED'']"

text \<open>\<open>error.message?.toLowerCase() || ''\<close>, then \<open>some\<close> over the phrases.\<close>

definition isQuotaError :: "js_error \<Rightarrow> bool" where
  "isQuotaError error =
     (let errorMessage = (case message error of Some m \<Rightarrow> toLowerCase m | None \<Rightarrow> [])
      in list_ex (\<lambda>msg. includes_str errorMessage msg) quotaErrorMessages)"

text \<open>The classification in the words of the specification: the message, compared
  without regard to case, contains one of the known phrases.\<close>

definition mentions_quota_phrase :: "js_error \<Rightarrow> bool" where
  "mentions_quota_phrase e =
     (\<exists>p \<in> set quotaErrorMessages.
        sublist (toLowerCase p) (toLowerCase (case message e of Some m \<Rightarrow> m | None \<Rightarrow> [])))"

definition systemInstructions :: string where
  "systemInstructions =
     ''You are a helpful AI assistant for an architectural company'' @ [CHR 0x27] @
     ''s customer support. '' @ [CHR 0x0A] @
     ''Your role is to provide accurate, professional, and friendly responses to customer inquiries.'' @
     [CHR 0x0A, CHR 0x0A] @
     ''Guidelines:'' @ [CHR 0x0A] @
     ''- Use the provided knowledge base information when relevant'' @ [CHR 0x0A] @
     ''- If you don'' @ [CHR 0x27] @
     ''t have specific information, politely suggest contacting human support'' @ [CHR 0x0A] @
     ''- Keep responses concise but informative'' @ [CHR 0x0A] @
     ''- Maintain a professional yet friendly tone'' @ [CHR 0x0A] @
     ''- Focus on architectural services, pricing, processes, and general company information''"

definition constructPrompt :: "string \<Rightarrow> string \<Rightarrow> string" where
  "constructPrompt userMessage knowledgeContext =
     (let prompt = systemInstructions @ [CHR 0x0A, CHR 0x0A];
          prompt = (if knowledgeContext \<noteq> []
                    then prompt @ ''Relevant company information:'' @ [CHR 0x0A] @
                         knowledgeContext @ [CHR 0x0A, CHR 0x0A]
                    else prompt)
      in prompt @ ''Customer question: '' @ userMessage @ [CHR 0x0A, CHR 0x0A] @ ''Response:'')"

record generated =
  response :: string
  modelUsed :: string
  tierUsed :: string

text \<open>
  The external completion service is a parameter: \<open>service n model prompt\<close> is what
  the \<open>n\<close>-th call of the request does when asked for \<open>prompt\<close> on \<open>model\<close>, either the
  generated text or the error it throws. \<open>now\<close> is the reading of \<open>Date.now()\<close>.

  \<open>generateResponse_loop\<close> is the \<open>for\<close> loop of \<open>generateResponse\<close> from \<open>attempt\<close>
  on, \<open>maxRetries\<close> being \<open>this.modelTiers.length\<close> read before the loop. The result
  carries the service together with the model names that were called, in order.
\<close>

type_synonym completion = "nat \<Rightarrow> string \<Rightarrow> string \<Rightarrow> js_error + string"

function generateResponse_loop ::
  "completion \<Rightarrow> nat \<Rightarrow> string \<Rightarrow> string \<Rightarrow> nat \<Rightarrow> nat \<Rightarrow> js_error option \<Rightarrow>
   string list \<Rightarrow> gemini_service \<Rightarrow> (js_error + generated) \<times> string list \<times> gemini_service"
where
  "generateResponse_loop service now prompt knowledgeContext maxRetries attempt lastError calls g =
     (if attempt < maxRetries then
        (case getCurrentModel g of
           Inl e \<Rightarrow> (Inl e, calls, g)
         | Inr model \<Rightarrow>
             let fullPrompt = constructPrompt prompt knowledgeContext;
                 calls = calls @ [name model]
             in (case service attempt (name model) fullPrompt of
                   Inr text \<Rightarrow>
                     let g = (if currentModelIndex g > 0
                              then g\<lparr>timers := timers g @ [retryDelay g]\<rparr> else g)
                     in (Inr \<lparr>response = text,
                              modelUsed = name model,
                              tierUsed = tier model\<rparr>, calls, g)
                 | Inl error \<Rightarrow>
                     if isQuotaError error then
                       (case switchToNextTier g of
                          (False, g) \<Rightarrow>
                            (Inl (Error ''All Gemini model tiers have reached their limits. Please try again later.''),
                             calls, g\<lparr>lastFailureTime := Some now\<rparr>)
                        | (True, g) \<Rightarrow>
                            generateResponse_loop service now prompt knowledgeContext
                              maxRetries (attempt + 1) (Some error) calls g)
                     else (Inl error, calls, g)))
      else
        (case lastError of
           Some e \<Rightarrow> (Inl e, calls, g)
         | None \<Rightarrow> (Inl (Error ''Failed to generate response after all retries''), calls, g)))"
  by pat_completeness auto
termination
  by (relation "measure (\<lambda>(service, now, prompt, knowledgeContext, maxRetries, attempt, rest).
        maxRetries - attempt)") auto

declare generateResponse_loop.simps [simp del]

definition generateResponse ::
  "completion \<Rightarrow> nat \<Rightarrow> gemini_service \<Rightarrow> string \<Rightarrow> string \<Rightarrow>
   (js_error + generated) \<times> string list \<times> gemini_service" where
  "generateResponse service now g prompt knowledgeContext =
     generateResponse_loop service now prompt knowledgeContext
       (length (modelTiers g)) 0 None [] g"

section \<open>The knowledge base document and the file system\<close>

text \<open>
  The document that is kept in \<open>data/knowledge-base.json\<close>. \<open>lastUpdated\<close> and
  \<open>version\<close> may be missing from a file that was not written by \<open>saveKnowledgeBase\<close>,
  and \<open>recovered\<close> is present (and true) only in the document that replaces an
  unparseable file.
\<close>

record kb_doc =
  entries :: "knowledge_entry list"
  lastUpdated :: "nat option"
  version :: "string option"
  recovered :: bool

text \<open>
  The content of a file, as \<open>JSON.parse\<close> sees it: text that is not JSON, a bare array
  of entries (the legacy shape), an object whose \<open>entries\<close> is an array, \<open>null\<close>, and
  any other JSON value (a number, a string, a boolean, an object whose \<open>entries\<close> is
  missing or is not an array). The elements of an array of entries are taken to be
  entries with all their fields. \<open>JSON.stringify\<close> of a document is \<open>JsonDocument\<close>, so
  parsing what was written gives the document back.
\<close>

datatype content =
  Unparseable string
| JsonArray "knowledge_entry list"
| JsonDocument kb_doc
| JsonNull
| JsonOther string

datatype dir = DataDir | BackupDir

text \<open>
  The files the store touches: the knowledge file and its temporary neighbour in
  \<open>data\<close>, the copies \<open>corrupted-backup-<time>.json\<close> in \<open>data\<close>, the copies
  \<open>safety-backup-<time>.json\<close> in \<open>backups\<close>, and any other file, whose name does not
  start with \<open>safety-backup-\<close>. The time in a name is the clock reading it was made from.
\<close>

datatype path =
  KnowledgeFile
| KnowledgeTmp
| CorruptedBackup nat
| SafetyBackup nat
| OtherFile dir string

fun dirname :: "path \<Rightarrow> dir" where
  "dirname KnowledgeFile = DataDir"
| "dirname KnowledgeTmp = DataDir"
| "dirname (CorruptedBackup t) = DataDir"
| "dirname (SafetyBackup t) = BackupDir"
| "dirname (OtherFile d n) = d"

text \<open>
  Everything outside the program that it reads or changes: the files (an association
  list from path to content), the directories that exist, the clock with the amounts
  by which it will advance after each of the next readings, the digits that the next
  calls of \<open>Math.random().toString(36).substr(2)\<close> will give, the file-system calls
  that will fail with an input/output error (one flag for each of the next calls,
  none when the list is used up), and the delays the program has waited for.
\<close>

record world =
  files :: "(path \<times> content) list"
  dirs :: "dir set"
  clock :: nat
  ticks :: "nat list"
  rands :: "string list"
  faults :: "bool list"
  slept :: "nat list"

definition date_now :: "world \<Rightarrow> nat \<times> world" where
  "date_now w =
     (clock w, case ticks w of [] \<Rightarrow> w | d # ds \<Rightarrow> w\<lparr>clock := clock w + d, ticks := ds\<rparr>)"

definition math_random :: "world \<Rightarrow> string \<times> world" where
  "math_random w = (case rands w of [] \<Rightarrow> ([], w) | r # rs \<Rightarrow> (r, w\<lparr>rands := rs\<rparr>))"

text \<open>\<open>await new Promise(resolve => setTimeout(resolve, ms))\<close>.\<close>

definition sleep :: "nat \<Rightarrow> world \<Rightarrow> world" where
  "sleep ms w = w\<lparr>clock := clock w + ms, slept := slept w @ [ms]\<rparr>"

definition fault :: "world \<Rightarrow> bool \<times> world" where
  "fault w = (case faults w of [] \<Rightarrow> (False, w) | f # fs \<Rightarrow> (f, w\<lparr>faults := fs\<rparr>))"

definition EIO :: js_error where
  "EIO = SystemError ''EIO'' ''EIO: i/o error''"

definition ENOENT :: js_error where
  "ENOENT = SystemError ''ENOENT'' ''ENOENT: no such file or directory''"

definition fs_access :: "dir \<Rightarrow> world \<Rightarrow> (js_error + unit) \<times> world" where
  "fs_access d w =
     (case fault w of
        (True, w) \<Rightarrow> (Inl EIO, w)
      | (False, w) \<Rightarrow> if d \<in> dirs w then (Inr (), w) else (Inl ENOENT, w))"

text \<open>\<open>fs.mkdir(d, { recursive: true })\<close> succeeds on a directory that exists.\<close>

definition fs_mkdir :: "dir \<Rightarrow> world \<Rightarrow> (js_error + unit) \<times> world" where
  "fs_mkdir d w =
     (case fault w of
        (True, w) \<Rightarrow> (Inl EIO, w)
      | (False, w) \<Rightarrow> (Inr (), w\<lparr>dirs := insert d (dirs w)\<rparr>))"

definition fs_readFile :: "path \<Rightarrow> world \<Rightarrow> (js_error + content) \<times> world" where
  "fs_readFile p w =
     (case fault w of
        (True, w) \<Rightarrow> (Inl EIO, w)
      | (False, w) \<Rightarrow>
          (case map_of (files w) p of None \<Rightarrow> (Inl ENOENT, w) | Some c \<Rightarrow> (Inr c, w)))"

definition fs_writeFile :: "path \<Rightarrow> content \<Rightarrow> world \<Rightarrow> (js_error + unit) \<times> world" where
  "fs_writeFile p c w =
     (case fault w of
        (True, w) \<Rightarrow> (Inl EIO, w)
      | (False, w) \<Rightarrow>
          if dirname p \<in> dirs w then (Inr (), w\<lparr>files := AList.update p c (files w)\<rparr>)
          else (Inl ENOENT, w))"

definition fs_rename :: "path \<Rightarrow> path \<Rightarrow> world \<Rightarrow> (js_error + unit) \<times> world" where
  "fs_rename p q w =
     (case fault w of
        (True, w) \<Rightarrow> (Inl EIO, w)
      | (False, w) \<Rightarrow>
          (case map_of (files w) p of
             None \<Rightarrow> (Inl ENOENT, w)
           | Some c \<Rightarrow>
               if dirname q \<in> dirs w
               then (Inr (), w\<lparr>files := AList.update q c (AList.delete p (files w))\<rparr>)
               else (Inl ENOENT, w)))"

definition fs_readdir :: "dir \<Rightarrow> world \<Rightarrow> (js_error + path list) \<times> world" where
  "fs_readdir d w =
     (case fault w of
        (True, w) \<Rightarrow> (Inl EIO, w)
      | (False, w) \<Rightarrow>
          if d \<in> dirs w then (Inr (filter (\<lambda>p. dirname p = d) (map fst (files w))), w)
          else (Inl ENOENT, w))"

definition fs_unlink :: "path \<Rightarrow> world \<Rightarrow> (js_error + unit) \<times> world" where
  "fs_unlink p w =
     (case fault w of
        (True, w) \<Rightarrow> (Inl EIO, w)
      | (False, w) \<Rightarrow>
          (case map_of (files w) p of
             None \<Rightarrow> (Inl ENOENT, w)
           | Some c \<Rightarrow> (Inr (), w\<lparr>files := AList.delete p (files w)\<rparr>)))"

section \<open>The knowledge store (\<open>KnowledgeBase\<close>): loading and saving\<close>

text \<open>\<open>const maxRetries = 3\<close>, in \<open>loadKnowledgeBase\<close> and in \<open>saveKnowledgeBase\<close>.\<close>

definition kbMaxRetries :: nat where
  "kbMaxRetries = 3"

text \<open>\<open>ensureDataDirectory\<close>; the constructor also starts it, without waiting for it.\<close>

definition ensureDataDirectory :: "world \<Rightarrow> (js_error + unit) \<times> world" where
  "ensureDataDirectory w =
     (case fs_access DataDir w of
        (Inr u, w) \<Rightarrow> (Inr (), w)
      | (Inl error, w) \<Rightarrow> fs_mkdir DataDir w)"

text \<open>\<open>createCorruptionBackup\<close> catches every error of its body, so it only changes
  the world.\<close>

definition createCorruptionBackup :: "world \<Rightarrow> world" where
  "createCorruptionBackup w =
     (let (timestamp, w) = date_now w
      in case fs_readFile KnowledgeFile w of
           (Inl error, w) \<Rightarrow> w
         | (Inr corruptedData, w) \<Rightarrow>
             (case fs_writeFile (CorruptedBackup timestamp) corruptedData w of
                (Inl error, w) \<Rightarrow> w
              | (Inr u, w) \<Rightarrow> w))"

fun is_safety_backup :: "path \<Rightarrow> bool" where
  "is_safety_backup (SafetyBackup t) = True"
| "is_safety_backup p = False"

fun stamp :: "path \<Rightarrow> nat" where
  "stamp (SafetyBackup t) = t"
| "stamp (CorruptedBackup t) = t"
| "stamp p = 0"

text \<open>The \<open>for\<close> loop that unlinks the old safety backups; the first error ends it.\<close>

fun unlink_all :: "path list \<Rightarrow> world \<Rightarrow> (js_error + unit) \<times> world" where
  "unlink_all [] w = (Inr (), w)"
| "unlink_all (file # filesToDelete) w =
     (case fs_unlink file w of
        (Inl error, w) \<Rightarrow> (Inl error, w)
      | (Inr u, w) \<Rightarrow> unlink_all filesToDelete w)"

text \<open>
  \<open>createSafetyBackup\<close> also catches every error of its body. The names of the safety
  backups sort as their times do, so \<open>sort().reverse()\<close> puts the newest first.
\<close>

definition createSafetyBackup :: "world \<Rightarrow> world" where
  "createSafetyBackup w =
     (case fs_mkdir BackupDir w of
        (Inl error, w) \<Rightarrow> w
      | (Inr u, w) \<Rightarrow>
          let (timestamp, w) = date_now w
          in case fs_readFile KnowledgeFile w of
               (Inl error, w) \<Rightarrow> w
             | (Inr currentData, w) \<Rightarrow>
                 (case fs_writeFile (SafetyBackup timestamp) currentData w of
                    (Inl error, w) \<Rightarrow> w
                  | (Inr u, w) \<Rightarrow>
                      (case fs_readdir BackupDir w of
                         (Inl error, w) \<Rightarrow> w
                       | (Inr backupFiles, w) \<Rightarrow>
                           let safetyBackups =
                                 rev (sort_key stamp (filter is_safety_backup backupFiles))
                           in if length safetyBackups > 5
                              then snd (unlink_all
                                     (js_slice safetyBackups 5 (int (length safetyBackups))) w)
                              else w)))"

text \<open>
  The body of the \<open>try\<close> in \<open>saveKnowledgeBase\<close>. It assigns \<open>lastUpdated\<close> and
  \<open>version\<close> in the document it was given, so the document is returned with the
  outcome. The test that \<open>entries\<close> is an array always passes on a \<^typ>\<open>kb_doc\<close>.
  \<open>knowledgeBase.version || '1.0'\<close> replaces a missing and an empty version.
\<close>

definition save_try :: "nat \<Rightarrow> kb_doc \<Rightarrow> world \<Rightarrow> (js_error + unit) \<times> kb_doc \<times> world" where
  "save_try attempt knowledgeBase w =
     (case ensureDataDirectory w of
        (Inl error, w) \<Rightarrow> (Inl error, knowledgeBase, w)
      | (Inr u, w) \<Rightarrow>
          let (t, w) = date_now w;
              knowledgeBase = knowledgeBase
                \<lparr>lastUpdated := Some t,
                 version := Some (case version knowledgeBase of
                                    None \<Rightarrow> ''1.0''
                                  | Some v \<Rightarrow> if v = [] then ''1.0'' else v)\<rparr>;
              w = (if attempt = 1 then createSafetyBackup w else w);
              jsonData = JsonDocument knowledgeBase
          in case fs_writeFile KnowledgeTmp jsonData w of
               (Inl error, w) \<Rightarrow> (Inl error, knowledgeBase, w)
             | (Inr u, w) \<Rightarrow>
                 (case fs_rename KnowledgeTmp KnowledgeFile w of
                    (Inl error, w) \<Rightarrow> (Inl error, knowledgeBase, w)
                  | (Inr u, w) \<Rightarrow> (Inr (), knowledgeBase, w)))"

text \<open>The document as the \<open>try\<close> of \<open>saveKnowledgeBase\<close> leaves it when the clock
  reads \<open>t\<close>; it is used to state what a save writes.\<close>

definition stamped :: "nat \<Rightarrow> kb_doc \<Rightarrow> kb_doc" where
  "stamped t knowledgeBase =
     knowledgeBase
       \<lparr>lastUpdated := Some t,
        version := Some (case version knowledgeBase of
                           None \<Rightarrow> ''1.0''
                         | Some v \<Rightarrow> if v = [] then ''1.0'' else v)\<rparr>"

text \<open>The \<open>for\<close> loop of \<open>saveKnowledgeBase\<close> from \<open>attempt\<close> on, and the \<open>throw\<close>
  after it. On success the document is returned as the call has left it.\<close>

function saveKnowledgeBase_loop ::
  "nat \<Rightarrow> js_error option \<Rightarrow> kb_doc \<Rightarrow> world \<Rightarrow> (js_error + kb_doc) \<times> world" where
  "saveKnowledgeBase_loop attempt lastError knowledgeBase w =
     (if attempt \<le> kbMaxRetries then
        (case save_try attempt knowledgeBase w of
           (Inr u, knowledgeBase, w) \<Rightarrow> (Inr knowledgeBase, w)
         | (Inl error, knowledgeBase, w) \<Rightarrow>
             if attempt < kbMaxRetries
             then saveKnowledgeBase_loop (attempt + 1) (Some error) knowledgeBase
                    (sleep (100 * attempt) w)
             else saveKnowledgeBase_loop (attempt + 1) (Some error) knowledgeBase w)
      else
        (case lastError of
           Some e \<Rightarrow>
             (Inl (Error (''Failed to save knowledge base after 3 attempts: '' @ message_text e)), w)
         | None \<Rightarrow> (Inl (TypeError ''Cannot read properties of null''), w)))"
  by pat_completeness auto
termination
  by (relation "measure (\<lambda>(attempt, lastError, knowledgeBase, w). kbMaxRetries + 1 - attempt)")
     auto

declare saveKnowledgeBase_loop.simps [simp del]

definition saveKnowledgeBase :: "kb_doc \<Rightarrow> world \<Rightarrow> (js_error + kb_doc) \<times> world" where
  "saveKnowledgeBase knowledgeBase w = saveKnowledgeBase_loop 1 None knowledgeBase w"

text \<open>
  The body of the \<open>try\<close> in \<open>loadKnowledgeBase\<close>. The legacy array is wrapped, saved and
  returned as \<open>saveKnowledgeBase\<close> has left it; an error of that save is thrown
  inside the \<open>try\<close> like any other.
\<close>

definition load_try :: "world \<Rightarrow> (js_error + kb_doc) \<times> world" where
  "load_try w =
     (case ensureDataDirectory w of
        (Inl error, w) \<Rightarrow> (Inl error, w)
      | (Inr u, w) \<Rightarrow>
          (case fs_readFile KnowledgeFile w of
             (Inl error, w) \<Rightarrow> (Inl error, w)
           | (Inr data, w) \<Rightarrow>
               (case data of
                  Unparseable s \<Rightarrow> (Inl (SyntaxError ''Unexpected token in JSON''), w)
                | JsonArray parsed \<Rightarrow>
                    let (t, w) = date_now w;
                        knowledgeBase =
                          \<lparr>entries = parsed, lastUpdated = Some t, version = Some ''1.0'',
                           recovered = False\<rparr>
                    in saveKnowledgeBase knowledgeBase w
                | JsonNull \<Rightarrow> (Inl (TypeError ''Cannot read properties of null''), w)
                | JsonOther s \<Rightarrow>
                    (Inl (Error ''Invalid knowledge base format: entries must be an array''), w)
                | JsonDocument parsed \<Rightarrow> (Inr parsed, w))))"

text \<open>
  The \<open>for\<close> loop of \<open>loadKnowledgeBase\<close> from \<open>attempt\<close> on, with its \<open>catch\<close> block,
  and the \<open>throw\<close> after it. A save that fails inside the \<open>catch\<close> block throws out of
  \<open>loadKnowledgeBase\<close>.
\<close>

function loadKnowledgeBase_loop ::
  "nat \<Rightarrow> js_error option \<Rightarrow> world \<Rightarrow> (js_error + kb_doc) \<times> world" where
  "loadKnowledgeBase_loop attempt lastError w =
     (if attempt \<le> kbMaxRetries then
        (case load_try w of
           (Inr kb, w) \<Rightarrow> (Inr kb, w)
         | (Inl error, w) \<Rightarrow>
             if code error = Some ''ENOENT'' then
               let (t, w) = date_now w;
                   emptyKB = \<lparr>entries = [], lastUpdated = Some t, version = Some ''1.0'',
                              recovered = False\<rparr>
               in saveKnowledgeBase emptyKB w
             else if instanceof_SyntaxError error \<and> attempt < kbMaxRetries then
               let w = createCorruptionBackup w;
                   (t, w) = date_now w;
                   emptyKB = \<lparr>entries = [], lastUpdated = Some t, version = Some ''1.0'',
                              recovered = True\<rparr>
               in saveKnowledgeBase emptyKB w
             else if attempt < kbMaxRetries
             then loadKnowledgeBase_loop (attempt + 1) (Some error) (sleep (100 * attempt) w)
             else loadKnowledgeBase_loop (attempt + 1) (Some error) w)
      else
        (case lastError of
           Some e \<Rightarrow>
             (Inl (Error (''Failed to load knowledge base after 3 attempts: '' @ message_text e)), w)
         | None \<Rightarrow> (Inl (TypeError ''Cannot read properties of null''), w)))"
  by pat_completeness auto
termination
  by (relation "measure (\<lambda>(attempt, lastError, w). kbMaxRetries + 1 - attempt)") auto

declare loadKnowledgeBase_loop.simps [simp del]

definition loadKnowledgeBase :: "world \<Rightarrow> (js_error + kb_doc) \<times> world" where
  "loadKnowledgeBase w = loadKnowledgeBase_loop 1 None w"

text \<open>
  Two notions for stating what the store does. \<open>steady w d\<close>: the knowledge file of
  \<open>w\<close> holds the document \<open>d\<close>, its directory exists and no file-system call is going
  to fail. \<open>fresh_doc es t r\<close>: the document that \<open>loadKnowledgeBase\<close> builds around the
  entries \<open>es\<close> and that was saved when the clock read \<open>t\<close>.
\<close>

definition steady :: "world \<Rightarrow> kb_doc \<Rightarrow> bool" where
  "steady w d =
     (faults w = [] \<and> DataDir \<in> dirs w \<and>
      map_of (files w) KnowledgeFile = Some (JsonDocument d))"

definition fresh_doc :: "knowledge_entry list \<Rightarrow> nat \<Rightarrow> bool \<Rightarrow> kb_doc" where
  "fresh_doc es t r = \<lparr>entries = es, lastUpdated = Some t, version = Some ''1.0'', recovered = r\<rparr>"

section \<open>The knowledge store: entries\<close>

definition digit36 :: "nat \<Rightarrow> char" where
  "digit36 d = ''0123456789abcdefghijklmnopqrstuvwxyz'' ! d"

text \<open>\<open>n.toString(36)\<close> of a natural number.\<close>

function toString36 :: "nat \<Rightarrow> string" where
  "toString36 n =
     (if n < 36 then [digit36 n] else toString36 (n div 36) @ [digit36 (n mod 36)])"
  by pat_completeness auto
termination
  by (relation "measure (\<lambda>n. n)") auto

declare toString36.simps [simp del]

text \<open>\<open>generateId\<close>: the time in base 36 followed by the digits of a random number.
  Nothing compares the result with the ids that are already stored.\<close>

definition generateId :: "world \<Rightarrow> string \<times> world" where
  "generateId w =
     (let (t, w) = date_now w;
          (r, w) = math_random w
      in (toString36 t @ r, w))"

text \<open>\<open>xs.findIndex(p)\<close> is \<open>-1\<close> when no element satisfies \<open>p\<close>.\<close>

fun js_findIndex :: "('a \<Rightarrow> bool) \<Rightarrow> 'a list \<Rightarrow> int" where
  "js_findIndex p [] = - 1"
| "js_findIndex p (x # xs) =
     (if p x then 0
      else let i = js_findIndex p xs in if i = - 1 then - 1 else i + 1)"

text \<open>\<open>xs.join(sep)\<close> of strings.\<close>

fun js_join :: "string \<Rightarrow> string list \<Rightarrow> string" where
  "js_join sep [] = []"
| "js_join sep [x] = x"
| "js_join sep (x # y # ys) = x @ sep @ js_join sep (y # ys)"

definition getAllEntries :: "world \<Rightarrow> (js_error + knowledge_entry list) \<times> world" where
  "getAllEntries w =
     (case loadKnowledgeBase w of
        (Inl error, w) \<Rightarrow> (Inl error, w)
      | (Inr kb, w) \<Rightarrow> (Inr (entries kb), w))"

text \<open>\<open>getEntryById\<close> returns \<open>undefined\<close>, here \<open>None\<close>, when no entry has the id.\<close>

definition getEntryById ::
  "string \<Rightarrow> world \<Rightarrow> (js_error + knowledge_entry option) \<times> world" where
  "getEntryById ident w =
     (case getAllEntries w of
        (Inl error, w) \<Rightarrow> (Inl error, w)
      | (Inr es, w) \<Rightarrow> (Inr (find (\<lambda>entry. entry_id entry = ident) es), w))"

text \<open>
  \<open>createEntry\<close>. The object literal is evaluated in the order it is written:
  \<open>generateId()\<close>, the two \<open>trim\<close>s, and then \<open>new Date()\<close> once for \<open>createdAt\<close> and
  once more for \<open>updatedAt\<close>. \<open>tags\<close> is an array here, so it is stored as given.
\<close>

definition createEntry ::
  "string \<Rightarrow> string \<Rightarrow> string list \<Rightarrow> world \<Rightarrow> (js_error + knowledge_entry) \<times> world" where
  "createEntry key val tags w =
     (case loadKnowledgeBase w of
        (Inl error, w) \<Rightarrow> (Inl error, w)
      | (Inr kb, w) \<Rightarrow>
          let (ident, w) = generateId w;
              (created, w) = date_now w;
              (updated, w) = date_now w;
              newEntry = \<lparr>entry_id = ident, entry_key = trim key, entry_value = trim val,
                          entry_tags = tags, createdAt = created, updatedAt = updated\<rparr>;
              kb = kb\<lparr>entries := entries kb @ [newEntry]\<rparr>
          in case saveKnowledgeBase kb w of
               (Inl error, w) \<Rightarrow> (Inl error, w)
             | (Inr saved, w) \<Rightarrow> (Inr newEntry, w))"

text \<open>
  The \<open>updates\<close> object of \<open>updateEntry\<close>: each property of an entry may be present or
  absent in it. \<open>{...existingEntry, ...updates, id: existingEntry.id, updatedAt: new Date()}\<close>
  takes a property from \<open>updates\<close> when it is present and from the existing entry
  otherwise, and then sets \<open>id\<close> and \<open>updatedAt\<close>.
\<close>

record entry_updates =
  upd_id :: "string option"
  upd_key :: "string option"
  upd_value :: "string option"
  upd_tags :: "string list option"
  upd_createdAt :: "nat option"
  upd_updatedAt :: "nat option"

definition spread :: "knowledge_entry \<Rightarrow> entry_updates \<Rightarrow> knowledge_entry" where
  "spread existingEntry updates =
     \<lparr>entry_id = (case upd_id updates of Some v \<Rightarrow> v | None \<Rightarrow> entry_id existingEntry),
      entry_key = (case upd_key updates of Some v \<Rightarrow> v | None \<Rightarrow> entry_key existingEntry),
      entry_value = (case upd_value updates of Some v \<Rightarrow> v | None \<Rightarrow> entry_value existingEntry),
      entry_tags = (case upd_tags updates of Some v \<Rightarrow> v | None \<Rightarrow> entry_tags existingEntry),
      createdAt = (case upd_createdAt updates of Some v \<Rightarrow> v | None \<Rightarrow> createdAt existingEntry),
      updatedAt = (case upd_updatedAt updates of Some v \<Rightarrow> v | None \<Rightarrow> updatedAt existingEntry)\<rparr>"

definition updateEntry ::
  "string \<Rightarrow> entry_updates \<Rightarrow> world \<Rightarrow> (js_error + knowledge_entry) \<times> world" where
  "updateEntry ident updates w =
     (case loadKnowledgeBase w of
        (Inl error, w) \<Rightarrow> (Inl error, w)
      | (Inr kb, w) \<Rightarrow>
          let entryIndex = js_findIndex (\<lambda>entry. entry_id entry = ident) (entries kb)
          in if entryIndex = - 1
             then (Inl (Error (''Entry with ID '' @ ident @ '' not found'')), w)
             else
               let existingEntry = entries kb ! nat entryIndex;
                   (t, w) = date_now w;
                   updatedEntry = (spread existingEntry updates)
                     \<lparr>entry_id := entry_id existingEntry, updatedAt := t\<rparr>;
                   kb = kb\<lparr>entries := (entries kb)[nat entryIndex := updatedEntry]\<rparr>
               in case saveKnowledgeBase kb w of
                    (Inl error, w) \<Rightarrow> (Inl error, w)
                  | (Inr saved, w) \<Rightarrow> (Inr updatedEntry, w))"

text \<open>\<open>deleteEntry\<close>: \<open>splice(entryIndex, 1)\<close> removes the entry at the index.\<close>

definition deleteEntry ::
  "string \<Rightarrow> world \<Rightarrow> (js_error + knowledge_entry) \<times> world" where
  "deleteEntry ident w =
     (case loadKnowledgeBase w of
        (Inl error, w) \<Rightarrow> (Inl error, w)
      | (Inr kb, w) \<Rightarrow>
          let entryIndex = js_findIndex (\<lambda>entry. entry_id entry = ident) (entries kb)
          in if entryIndex = - 1
             then (Inl (Error (''Entry with ID '' @ ident @ '' not found'')), w)
             else
               let deletedEntry = entries kb ! nat entryIndex;
                   kb = kb\<lparr>entries := take (nat entryIndex) (entries kb) @
                                        drop (nat entryIndex + 1) (entries kb)\<rparr>
               in case saveKnowledgeBase kb w of
                    (Inl error, w) \<Rightarrow> (Inl error, w)
                  | (Inr saved, w) \<Rightarrow> (Inr deletedEntry, w))"

definition searchEntries ::
  "string \<Rightarrow> int \<Rightarrow> world \<Rightarrow> (js_error + search_result) \<times> world" where
  "searchEntries query limit w =
     (case getAllEntries w of
        (Inl error, w) \<Rightarrow> (Inl error, w)
      | (Inr es, w) \<Rightarrow> (Inr (searchEntries_on es query limit), w))"

definition getRelevantContext ::
  "string \<Rightarrow> int \<Rightarrow> world \<Rightarrow> (js_error + string) \<times> world" where
  "getRelevantContext userMessage maxEntries w =
     (case searchEntries userMessage maxEntries w of
        (Inl error, w) \<Rightarrow> (Inl error, w)
      | (Inr searchResults, w) \<Rightarrow>
          if length (result_entries searchResults) = 0 then (Inr [], w)
          else
            let contextParts =
                  map (\<lambda>entry. entry_key entry @ '': '' @ entry_value entry)
                    (result_entries searchResults)
            in (Inr (js_join [CHR 0x0A, CHR 0x0A] contextParts), w))"

text \<open>The averages of \<open>getStats\<close> are the exact quotients, which the code rounds to
  floating point numbers.\<close>

record kb_stats =
  totalEntries :: nat
  stats_lastUpdated :: "nat option"
  averageKeyLength :: rat
  averageValueLength :: rat

definition getStats :: "world \<Rightarrow> (js_error + kb_stats) \<times> world" where
  "getStats w =
     (case getAllEntries w of
        (Inl error, w) \<Rightarrow> (Inl error, w)
      | (Inr es, w) \<Rightarrow>
          (case loadKnowledgeBase w of
             (Inl error, w) \<Rightarrow> (Inl error, w)
           | (Inr kb, w) \<Rightarrow>
               (Inr \<lparr>totalEntries = length es,
                     stats_lastUpdated = lastUpdated kb,
                     averageKeyLength =
                       (if length es > 0
                        then of_nat (fold (\<lambda>entry sum. sum + length (entry_key entry)) es 0) /
                             of_nat (length es)
                        else 0),
                     averageValueLength =
                       (if length es > 0
                        then of_nat (fold (\<lambda>entry sum. sum + length (entry_value entry)) es 0) /
                             of_nat (length es)
                        else 0)\<rparr>, w)))"

section \<open>Notions for stating the claims about the store\<close>

text \<open>
  The invariant of the data model: ids are unique in the collection, and no key and
  no value is empty or only white space.
\<close>

definition doc_invariant :: "kb_doc \<Rightarrow> bool" where
  "doc_invariant d =
     (distinct (map entry_id (entries d)) \<and>
      (\<forall>e \<in> set (entries d). trim (entry_key e) \<noteq> [] \<and> trim (entry_value e) \<noteq> []))"

text \<open>The knowledge file of a world satisfies the invariant when it holds a document
  that does.\<close>

definition persisted_invariant :: "world \<Rightarrow> bool" where
  "persisted_invariant w =
     (case map_of (files w) KnowledgeFile of
        Some (JsonDocument d) \<Rightarrow> doc_invariant d
      | _ \<Rightarrow> False)"

text \<open>
  The operations of the store that only read, and \<open>run_read\<close>, which runs one of them
  and tells whether it returned (rather than threw) and the world it left.
\<close>

datatype read_op =
  GetAllEntries
| GetEntryById string
| SearchEntries string int
| GetRelevantContext string int
| GetStats

fun returned :: "'e + 'a \<Rightarrow> bool" where
  "returned (Inl e) = False"
| "returned (Inr x) = True"

fun run_read :: "read_op \<Rightarrow> world \<Rightarrow> bool \<times> world" where
  "run_read GetAllEntries w = (case getAllEntries w of (r, w) \<Rightarrow> (returned r, w))"
| "run_read (GetEntryById ident) w = (case getEntryById ident w of (r, w) \<Rightarrow> (returned r, w))"
| "run_read (SearchEntries query limit) w =
     (case searchEntries query limit w of (r, w) \<Rightarrow> (returned r, w))"
| "run_read (GetRelevantContext userMessage maxEntries) w =
     (case getRelevantContext userMessage maxEntries w of (r, w) \<Rightarrow> (returned r, w))"
| "run_read GetStats w = (case getStats w of (r, w) \<Rightarrow> (returned r, w))"

section \<open>Example data\<close>

text \<open>Entries and worlds on which the theorems below are instantiated.\<close>

definition entry_pricing :: knowledge_entry where
  "entry_pricing =
     \<lparr>entry_id = ''a1'', entry_key = ''Pricing'', entry_value = ''We charge by the hour'',
      entry_tags = [''cost''], createdAt = 5, updatedAt = 6\<rparr>"

definition entry_plans :: knowledge_entry where
  "entry_plans =
     \<lparr>entry_id = ''b2'', entry_key = ''Our Pricing Plans'', entry_value = ''Three plans'',
      entry_tags = [''pricing''], createdAt = 7, updatedAt = 5000\<rparr>"

definition entry_hours :: knowledge_entry where
  "entry_hours =
     \<lparr>entry_id = ''c3'', entry_key = ''Opening hours'', entry_value = ''Nine to five'',
      entry_tags = [], createdAt = 8, updatedAt = 8\<rparr>"

text \<open>A world with nothing on disk, a clock that stands at 1000 and no failure ahead.\<close>

definition world_empty :: world where
  "world_empty =
     \<lparr>files = [], dirs = {}, clock = 1000, ticks = [], rands = [], faults = [], slept = []\<rparr>"

text \<open>The same world with a knowledge file of the given content.\<close>

definition world_with :: "content \<Rightarrow> world" where
  "world_with c = world_empty\<lparr>files := [(KnowledgeFile, c)], dirs := {DataDir}\<rparr>"

definition doc_three :: kb_doc where
  "doc_three =
     \<lparr>entries = [entry_pricing, entry_plans, entry_hours], lastUpdated = Some 900,
      version = Some ''1.0'', recovered = False\<rparr>"

text \<open>The \<open>updates\<close> object \<open>{value: v}\<close>.\<close>

definition update_value :: "string \<Rightarrow> entry_updates" where
  "update_value v =
     \<lparr>upd_id = None, upd_key = None, upd_value = Some v, upd_tags = None,
      upd_createdAt = None, upd_updatedAt = None\<rparr>"

text \<open>A document whose only entry has the id that \<open>generateId\<close> gives when the clock
  stands at 1000 and the random digits are used up.\<close>

definition doc_rs :: kb_doc where
  "doc_rs = doc_three\<lparr>entries := [entry_hours\<lparr>entry_id := ''rs''\<rparr>]\<rparr>"

section \<open>Properties of the string functions\<close>

lemma includes_sublist: "includes_str s t \<longleftrightarrow> sublist t s"
  by (induction s) (auto simp: sublist_Cons_right)

lemma split_ws_nonempty: "split_ws s \<noteq> []"
  by (subst split_ws.simps) (simp add: Let_def)

lemma fold_inner_count:
  "fold (\<lambda>y (score::int). if P y then score + 10 else score) ys acc =
     acc + 10 * int (length (filter P ys))"
  by (induction ys arbitrary: acc) auto

lemma fold_outer_count:
  "fold (\<lambda>x. fold (\<lambda>y (score::int). if P x y then score + 10 else score) ys) xs acc =
     acc + 10 * int (length (filter (\<lambda>(x, y). P x y) (List.product xs ys)))"
proof (induction xs arbitrary: acc)
  case Nil
  then show ?case by simp
next
  case (Cons x xs)
  have "length (filter (\<lambda>(x, y). P x y) (map (Pair x) ys)) = length (filter (P x) ys)"
    by (induction ys) auto
  with Cons show ?case
    by (simp add: fold_inner_count algebra_simps)
qed


lemma js_slice_take: "0 \<le> limit \<Longrightarrow> js_slice xs 0 limit = take (nat limit) xs"
  by (auto simp: js_slice_def Let_def min_def)

lemma js_slice_negative:
  "limit < 0 \<Longrightarrow> js_slice xs 0 limit = take (length xs - nat (- limit)) xs"
  by (auto simp: js_slice_def Let_def max_def intro: arg_cong [where f = "\<lambda>n. take n xs"])

lemma js_insert_insort:
  "js_insert (\<lambda>a b. f b - f a) x ys = insort_key (\<lambda>a. - f a) x ys"
  for f :: "'a \<Rightarrow> int"
  by (induction ys) auto

lemma js_sort_sort_key:
  "js_sort (\<lambda>a b. f b - f a) xs = sort_key (\<lambda>a. - f a) xs"
  for f :: "'a \<Rightarrow> int"
  unfolding js_sort_def sort_key_def
  by (induction xs) (auto simp: js_insert_insort)

lemma fold_push_filter:
  "fold (\<lambda>entry results.
           if g entry > (0::int) then results @ [(entry, g entry)] else results)
        es acc =
     acc @ map (\<lambda>e. (e, g e)) (filter (\<lambda>e. g e > 0) es)"
  by (induction es arbitrary: acc) auto

lemma toLowerChar_idem: "toLowerChar (toLowerChar c) = toLowerChar c"
  by (auto simp: toLowerChar_def Let_def)

lemma toLowerCase_idem: "toLowerCase (toLowerCase s) = toLowerCase s"
  by (simp add: toLowerCase_def toLowerChar_idem)

lemma is_space_toLowerChar: "is_space (toLowerChar c) = is_space c"
  by (auto simp: toLowerChar_def is_space_def Let_def)

lemma searchEntries_on_blank:
  "0 \<le> limit \<Longrightarrow> trim query = [] \<Longrightarrow>
     searchEntries_on es query limit = Plain (take (nat limit) es)"
  by (simp add: searchEntries_on_def js_slice_take)

lemma searchEntries_on_scored:
  "trim query \<noteq> [] \<Longrightarrow>
     searchEntries_on es query limit =
       Scored (js_slice
         (sort_key (\<lambda>r. - snd r)
            (map (\<lambda>e. (e, calculateRelevanceScore e (trim (toLowerCase query))))
               (filter (\<lambda>e. calculateRelevanceScore e (trim (toLowerCase query)) > 0) es)))
         0 limit)"
proof -
  assume ne: "trim query \<noteq> []"
  then have "query \<noteq> []" by (auto simp: trim_def)
  with ne show ?thesis
    by (simp add: searchEntries_on_def Let_def fold_push_filter js_sort_sort_key)
qed

text \<open>
  What \<open>split_ws\<close> gives: no piece contains white space, the pieces together are the
  characters of the string that are not white space, and a string that starts and ends
  with a character that is not white space, as a trimmed query does, has no empty piece.
\<close>

lemma split_ws_last:
  assumes "dropWhile (\<lambda>c. \<not> is_space c) s = []"
  shows "split_ws s = [takeWhile (\<lambda>c. \<not> is_space c) s]"
proof -
  have "split_ws s =
     (if dropWhile (\<lambda>c. \<not> is_space c) s = [] then [takeWhile (\<lambda>c. \<not> is_space c) s]
      else takeWhile (\<lambda>c. \<not> is_space c) s #
        split_ws (dropWhile is_space (dropWhile (\<lambda>c. \<not> is_space c) s)))"
    by (subst split_ws.simps, unfold Let_def) (rule refl)
  with assms show ?thesis
    by (simp only: if_True simp_thms)
qed

lemma split_ws_more:
  assumes "dropWhile (\<lambda>c. \<not> is_space c) s \<noteq> []"
  shows "split_ws s = takeWhile (\<lambda>c. \<not> is_space c) s #
       split_ws (dropWhile is_space (dropWhile (\<lambda>c. \<not> is_space c) s))"
proof -
  have "split_ws s =
     (if dropWhile (\<lambda>c. \<not> is_space c) s = [] then [takeWhile (\<lambda>c. \<not> is_space c) s]
      else takeWhile (\<lambda>c. \<not> is_space c) s #
        split_ws (dropWhile is_space (dropWhile (\<lambda>c. \<not> is_space c) s)))"
    by (subst split_ws.simps, unfold Let_def) (rule refl)
  with assms show ?thesis
    by (simp only: if_False simp_thms)
qed

lemma split_ws_no_space: "p \<in> set (split_ws s) \<Longrightarrow> c \<in> set p \<Longrightarrow> \<not> is_space c"
proof (induction s arbitrary: p rule: split_ws.induct)
  case (1 s)
  let ?w = "takeWhile (\<lambda>c. \<not> is_space c) s"
  let ?r = "dropWhile (\<lambda>c. \<not> is_space c) s"
  have w: "c \<in> set ?w \<Longrightarrow> \<not> is_space c"
    by (auto dest: set_takeWhileD)
  show ?case
  proof (cases "?r = []")
    case True
    from "1.prems"(1) have "p = ?w"
      unfolding split_ws_last [OF True] by simp
    with "1.prems"(2) w show ?thesis by blast
  next
    case False
    from "1.prems"(1) have "p = ?w \<or> p \<in> set (split_ws (dropWhile is_space ?r))"
      unfolding split_ws_more [OF False] by simp
    then show ?thesis
      using w "1.IH" [OF refl refl False] "1.prems"(2) by blast
  qed
qed

lemma concat_split_ws: "concat (split_ws s) = filter (\<lambda>c. \<not> is_space c) s"
proof (induction s rule: split_ws.induct)
  case (1 s)
  let ?w = "takeWhile (\<lambda>c. \<not> is_space c) s"
  let ?r = "dropWhile (\<lambda>c. \<not> is_space c) s"
  have "filter (\<lambda>c. \<not> is_space c) ?w = ?w"
    by (auto simp: filter_id_conv dest: set_takeWhileD)
  then have s: "filter (\<lambda>c. \<not> is_space c) s = ?w @ filter (\<lambda>c. \<not> is_space c) ?r"
    by (metis filter_append takeWhile_dropWhile_id)
  show ?case
  proof (cases "?r = []")
    case True
    show ?thesis
      unfolding split_ws_last [OF True] using s True by simp
  next
    case False
    have "filter (\<lambda>c. \<not> is_space c) ?r =
        filter (\<lambda>c. \<not> is_space c) (takeWhile is_space ?r) @
        filter (\<lambda>c. \<not> is_space c) (dropWhile is_space ?r)"
      by (metis filter_append takeWhile_dropWhile_id)
    moreover have "filter (\<lambda>c. \<not> is_space c) (takeWhile is_space ?r) = []"
      by (auto simp: filter_empty_conv dest: set_takeWhileD)
    ultimately have "filter (\<lambda>c. \<not> is_space c) ?r =
        concat (split_ws (dropWhile is_space ?r))"
      using "1.IH" [OF refl refl False] by simp
    then show ?thesis
      unfolding split_ws_more [OF False] using s by simp
  qed
qed

lemma takeWhile_word_nonempty: "s \<noteq> [] \<Longrightarrow> \<not> is_space (hd s) \<Longrightarrow> takeWhile (\<lambda>c. \<not> is_space c) s \<noteq> []"
  by (cases s) simp_all

lemma last_dropWhile_word: "dropWhile (\<lambda>c. \<not> is_space c) s \<noteq> [] \<Longrightarrow>
   last (dropWhile (\<lambda>c. \<not> is_space c) s) = last s"
  by (metis takeWhile_dropWhile_id last_appendR)

lemma dropWhile_space_nonempty: "r \<noteq> [] \<Longrightarrow> \<not> is_space (last r) \<Longrightarrow> dropWhile is_space r \<noteq> []"
proof
  assume r: "r \<noteq> []" "\<not> is_space (last r)" and "dropWhile is_space r = []"
  then have "\<forall>c \<in> set r. is_space c"
    by (simp add: dropWhile_eq_Nil_conv)
  moreover have "last r \<in> set r"
    using r(1) by (rule last_in_set)
  ultimately show False
    using r(2) by blast
qed

lemma last_dropWhile_space: "dropWhile is_space r \<noteq> [] \<Longrightarrow> last (dropWhile is_space r) = last r"
  by (metis takeWhile_dropWhile_id last_appendR)


lemma split_ws_words:
  "s \<noteq> [] \<Longrightarrow> \<not> is_space (hd s) \<Longrightarrow> \<not> is_space (last s) \<Longrightarrow> [] \<notin> set (split_ws s)"
proof (induction s rule: split_ws.induct)
  case (1 s)
  let ?w = "takeWhile (\<lambda>c. \<not> is_space c) s"
  let ?r = "dropWhile (\<lambda>c. \<not> is_space c) s"
  have w: "?w \<noteq> []"
    using "1.prems"(1,2) by (rule takeWhile_word_nonempty)
  show ?case
  proof (cases "?r = []")
    case True
    show ?thesis
      unfolding split_ws_last [OF True] using w by simp
  next
    case False
    let ?t = "dropWhile is_space ?r"
    have lr: "\<not> is_space (last ?r)"
      using last_dropWhile_word [OF False] "1.prems"(3) by simp
    have t: "?t \<noteq> []"
      using False lr by (rule dropWhile_space_nonempty)
    have lt: "\<not> is_space (last ?t)"
      using last_dropWhile_space [OF t] lr by simp
    have ht: "\<not> is_space (hd ?t)"
      using t by (rule hd_dropWhile)
    have "[] \<notin> set (split_ws ?t)"
      using False t ht lt by (rule "1.IH" [OF refl refl])
    then show ?thesis
      unfolding split_ws_more [OF False] using w by simp
  qed
qed

lemma trim_ends:
  assumes "trim s \<noteq> []"
  shows "\<not> is_space (hd (trim s)) \<and> \<not> is_space (last (trim s))"
proof -
  define t where "t = dropWhile is_space s"
  define u where "u = dropWhile is_space (rev t)"
  have ts: "trim s = rev u"
    by (simp add: trim_def t_def u_def)
  with assms have u: "u \<noteq> []" by simp
  then have hu: "\<not> is_space (hd u)"
    unfolding u_def by (rule hd_dropWhile)
  have last: "last (trim s) = hd u"
    using u by (simp add: ts last_rev)
  have "rev t = takeWhile is_space (rev t) @ u"
    by (simp add: u_def)
  then have "t = rev u @ rev (takeWhile is_space (rev t))"
    by (metis rev_append rev_rev_ident)
  then have "t \<noteq> []" and "hd t = hd (rev u)"
    using u by (metis append_is_Nil_conv rev_is_Nil_conv, metis hd_append2 rev_is_Nil_conv)
  then have "\<not> is_space (hd (rev u))"
    using hd_dropWhile [of is_space s] unfolding t_def by auto
  with hu last ts show ?thesis by simp
qed

lemma split_ws_trimmed: "trim q \<noteq> [] \<Longrightarrow> [] \<notin> set (split_ws (trim q))"
  using trim_ends [of q] by (intro split_ws_words) simp_all

section \<open>Properties of the completion gateway\<close>

lemma loop_calls_bound:
  "length (fst (snd (generateResponse_loop service now prompt ctx maxRetries attempt lastError calls g)))
     \<le> length calls + (maxRetries - attempt)"
proof (induction service now prompt ctx maxRetries attempt lastError calls g
    rule: generateResponse_loop.induct)
  case (1 service now prompt ctx maxRetries attempt lastError calls g)
  show ?case
  proof (cases "attempt < maxRetries")
    case False
    then show ?thesis
      by (subst generateResponse_loop.simps) (simp split: option.splits)
  next
    case True
    show ?thesis
    proof (cases "getCurrentModel g")
      case (Inl e)
      with True show ?thesis
        by (subst generateResponse_loop.simps) simp
    next
      case (Inr model)
      show ?thesis
      proof (cases "service attempt (name model) (constructPrompt prompt ctx)")
        case (Inr reply)
        with True \<open>getCurrentModel g = Inr model\<close> show ?thesis
          by (subst generateResponse_loop.simps) (simp add: Let_def)
      next
        case (Inl error)
        show ?thesis
        proof (cases "isQuotaError error \<and> fst (switchToNextTier g)")
          case False
          with True \<open>getCurrentModel g = Inr model\<close> Inl show ?thesis
            by (subst generateResponse_loop.simps)
               (auto simp: Let_def split: prod.splits bool.splits)
        next
          case sw: True
          obtain g' where g': "switchToNextTier g = (True, g')"
            using sw by (cases "switchToNextTier g") auto
          have "length (fst (snd (generateResponse_loop service now prompt ctx maxRetries
                  (attempt + 1) (Some error) (calls @ [name model]) g')))
                \<le> length (calls @ [name model]) + (maxRetries - (attempt + 1))"
            using "1.IH" [OF True \<open>getCurrentModel g = Inr model\<close> refl refl Inl _ g' [symmetric]] sw
            by simp
          with True \<open>getCurrentModel g = Inr model\<close> Inl sw g' show ?thesis
            by (subst generateResponse_loop.simps) (simp add: Let_def)
        qed
      qed
    qed
  qed
qed

lemma isQuotaError_mentions: "isQuotaError e \<Longrightarrow> mentions_quota_phrase e"
proof -
  assume "isQuotaError e"
  then obtain p where p: "p \<in> set quotaErrorMessages"
    and "sublist p (toLowerCase (case message e of Some m \<Rightarrow> m | None \<Rightarrow> []))"
    by (auto simp: isQuotaError_def Let_def list_ex_iff includes_sublist toLowerCase_def
        split: option.splits)
  then have "sublist (toLowerCase p)
      (toLowerCase (toLowerCase (case message e of Some m \<Rightarrow> m | None \<Rightarrow> [])))"
    unfolding toLowerCase_def by (intro map_mono_sublist)
  with p show ?thesis
    unfolding mentions_quota_phrase_def toLowerCase_idem by blast
qed

lemma new_GeminiService_tiers:
  "new_GeminiService apiKey = Inr g \<Longrightarrow> length (modelTiers g) = 3 \<and> currentModelIndex g = 0"
  by (auto simp: new_GeminiService_def split: if_splits)

section \<open>The file system when no call fails\<close>

lemma fault_quiet: "faults w = [] \<Longrightarrow> fault w = (False, w)"
  by (simp add: fault_def)

lemma fst_date_now: "fst (date_now w) = clock w"
  by (simp add: date_now_def)

lemma date_now_frame:
  "files (snd (date_now w)) = files w"
  "dirs (snd (date_now w)) = dirs w"
  "rands (snd (date_now w)) = rands w"
  "faults (snd (date_now w)) = faults w"
  "slept (snd (date_now w)) = slept w"
  by (simp_all add: date_now_def split: list.splits)

lemma date_now_clock: "clock w \<le> clock (snd (date_now w))"
  by (simp add: date_now_def split: list.splits)

lemma ensureDataDirectory_quiet:
  "faults w = [] \<Longrightarrow> ensureDataDirectory w = (Inr (), w\<lparr>dirs := insert DataDir (dirs w)\<rparr>)"
  by (simp add: ensureDataDirectory_def fs_access_def fs_mkdir_def fault_quiet insert_absorb)

lemma unlink_all_quiet:
  "faults w = [] \<Longrightarrow>
     faults (snd (unlink_all ps w)) = [] \<and>
     dirs (snd (unlink_all ps w)) = dirs w \<and>
     clock (snd (unlink_all ps w)) = clock w \<and>
     ticks (snd (unlink_all ps w)) = ticks w \<and>
     rands (snd (unlink_all ps w)) = rands w \<and>
     slept (snd (unlink_all ps w)) = slept w \<and>
     (\<forall>q. q \<notin> set ps \<longrightarrow> map_of (files (snd (unlink_all ps w))) q = map_of (files w) q)"
proof (induction ps arbitrary: w)
  case Nil
  then show ?case by simp
next
  case (Cons p ps)
  show ?case
  proof (cases "map_of (files w) p")
    case None
    with Cons.prems show ?thesis
      by (simp add: fs_unlink_def fault_quiet)
  next
    case (Some c)
    let ?w = "w\<lparr>files := AList.delete p (files w)\<rparr>"
    have q: "faults ?w = []" using Cons.prems by simp
    from Some Cons.prems have "unlink_all (p # ps) w = unlink_all ps ?w"
      by (simp add: fs_unlink_def fault_quiet)
    with Cons.IH [OF q] show ?thesis
      by (simp add: delete_conv')
  qed
qed

lemma set_js_slice: "set (js_slice xs a b) \<subseteq> set xs"
  unfolding js_slice_def Let_def
  by (meson set_drop_subset set_take_subset subset_trans)

lemma createSafetyBackup_quiet:
  assumes "faults w = []"
  shows "faults (createSafetyBackup w) = []"
    and "rands (createSafetyBackup w) = rands w"
    and "slept (createSafetyBackup w) = slept w"
    and "clock w \<le> clock (createSafetyBackup w)"
    and "dirs (createSafetyBackup w) = insert BackupDir (dirs w)"
    and "\<not> is_safety_backup p \<Longrightarrow> map_of (files (createSafetyBackup w)) p = map_of (files w) p"
proof -
  let ?w1 = "w\<lparr>dirs := insert BackupDir (dirs w)\<rparr>"
  let ?w2 = "snd (date_now ?w1)"
  have q2: "faults ?w2 = []"
    using assms by (simp add: date_now_frame)
  have all: "faults (createSafetyBackup w) = [] \<and>
      rands (createSafetyBackup w) = rands w \<and>
      slept (createSafetyBackup w) = slept w \<and>
      clock w \<le> clock (createSafetyBackup w) \<and>
      dirs (createSafetyBackup w) = insert BackupDir (dirs w) \<and>
      (\<not> is_safety_backup p \<longrightarrow> map_of (files (createSafetyBackup w)) p = map_of (files w) p)"
  proof (cases "map_of (files w) KnowledgeFile")
    case None
    then have "createSafetyBackup w = ?w2"
      using assms q2
      by (simp add: createSafetyBackup_def fs_mkdir_def fs_readFile_def fault_quiet
          split_def date_now_frame)
    then show ?thesis
      using assms date_now_clock [of ?w1] by (simp add: date_now_frame)
  next
    case (Some c)
    let ?w3 = "?w2\<lparr>files := AList.update (SafetyBackup (clock w)) c (files w)\<rparr>"
    let ?sb = "rev (sort_key stamp (filter is_safety_backup
                 (filter (\<lambda>p. dirname p = BackupDir) (map fst (files ?w3)))))"
    have q3: "faults ?w3 = []"
      using q2 by simp
    have eq: "createSafetyBackup w =
        (if length ?sb > 5 then snd (unlink_all (js_slice ?sb 5 (int (length ?sb))) ?w3) else ?w3)"
      using assms q2 Some
      by (simp add: createSafetyBackup_def fs_mkdir_def fs_readFile_def fs_writeFile_def
          fs_readdir_def fault_quiet split_def date_now_frame fst_date_now Let_def)
    define ps where "ps = js_slice ?sb 5 (int (length ?sb))"
    have mem: "\<not> is_safety_backup p \<Longrightarrow> p \<notin> set ps"
      using set_js_slice [of ?sb 5 "int (length ?sb)"] unfolding ps_def by auto
    have base: "\<not> is_safety_backup p \<Longrightarrow> map_of (files ?w3) p = map_of (files w) p"
      by (auto simp: update_conv')
    have w3: "rands ?w3 = rands w" "slept ?w3 = slept w" "clock w \<le> clock ?w3"
      "dirs ?w3 = insert BackupDir (dirs w)"
      using date_now_clock [of ?w1] by (simp_all add: date_now_frame)
    show ?thesis
    proof (cases "length ?sb > 5")
      case False
      with eq have "createSafetyBackup w = ?w3" by simp
      then show ?thesis
        using q3 base w3 by simp
    next
      case True
      with eq have e: "createSafetyBackup w = snd (unlink_all ps ?w3)"
        unfolding ps_def by simp
      from unlink_all_quiet [OF q3, of ps]
      have u: "faults (snd (unlink_all ps ?w3)) = []"
        "dirs (snd (unlink_all ps ?w3)) = dirs ?w3"
        "clock (snd (unlink_all ps ?w3)) = clock ?w3"
        "rands (snd (unlink_all ps ?w3)) = rands ?w3"
        "slept (snd (unlink_all ps ?w3)) = slept ?w3"
        "\<And>q. q \<notin> set ps \<Longrightarrow> map_of (files (snd (unlink_all ps ?w3))) q = map_of (files ?w3) q"
        by blast+
      show ?thesis
        unfolding e u(1-5)
        using w3 u(6) [of p] mem base by simp
    qed
  qed
  show "faults (createSafetyBackup w) = []"
    and "rands (createSafetyBackup w) = rands w"
    and "slept (createSafetyBackup w) = slept w"
    and "clock w \<le> clock (createSafetyBackup w)"
    and "dirs (createSafetyBackup w) = insert BackupDir (dirs w)"
    and "\<not> is_safety_backup p \<Longrightarrow> map_of (files (createSafetyBackup w)) p = map_of (files w) p"
    using all by simp_all
qed

lemma saveKnowledgeBase_quiet:
  assumes "faults w = []"
  shows "fst (saveKnowledgeBase kb w) = Inr (stamped (clock w) kb)"
    and "faults (snd (saveKnowledgeBase kb w)) = []"
    and "rands (snd (saveKnowledgeBase kb w)) = rands w"
    and "slept (snd (saveKnowledgeBase kb w)) = slept w"
    and "clock w \<le> clock (snd (saveKnowledgeBase kb w))"
    and "DataDir \<in> dirs (snd (saveKnowledgeBase kb w))"
    and "map_of (files (snd (saveKnowledgeBase kb w))) KnowledgeFile =
           Some (JsonDocument (stamped (clock w) kb))"
    and "\<not> is_safety_backup p \<Longrightarrow> p \<noteq> KnowledgeFile \<Longrightarrow> p \<noteq> KnowledgeTmp \<Longrightarrow>
           map_of (files (snd (saveKnowledgeBase kb w))) p = map_of (files w) p"
proof -
  let ?wa = "w\<lparr>dirs := insert DataDir (dirs w)\<rparr>"
  let ?wb = "snd (date_now ?wa)"
  let ?wc = "createSafetyBackup ?wb"
  let ?doc = "JsonDocument (stamped (clock w) kb)"
  let ?we = "?wc\<lparr>files := AList.update KnowledgeFile ?doc
               (AList.delete KnowledgeTmp (AList.update KnowledgeTmp ?doc (files ?wc)))\<rparr>"
  have qb: "faults ?wb = []"
    using assms by (simp add: date_now_frame)
  note c = createSafetyBackup_quiet [OF qb]
  have dc: "DataDir \<in> dirs ?wc"
    by (simp add: c(5) date_now_frame)
  have st: "save_try 1 kb w = (Inr (), stamped (clock w) kb, ?we)"
    using assms c(1) dc
    by (simp add: save_try_def ensureDataDirectory_quiet split_def fst_date_now Let_def
        stamped_def fs_writeFile_def fs_rename_def fault_quiet update_conv')
  have s: "saveKnowledgeBase kb w = (Inr (stamped (clock w) kb), ?we)"
    unfolding saveKnowledgeBase_def
    by (subst saveKnowledgeBase_loop.simps) (simp add: kbMaxRetries_def st del: One_nat_def)
  show "fst (saveKnowledgeBase kb w) = Inr (stamped (clock w) kb)"
    by (simp add: s)
  show "faults (snd (saveKnowledgeBase kb w)) = []"
    by (simp add: s c(1))
  show "rands (snd (saveKnowledgeBase kb w)) = rands w"
    by (simp add: s c(2) date_now_frame)
  show "slept (snd (saveKnowledgeBase kb w)) = slept w"
    by (simp add: s c(3) date_now_frame)
  show "clock w \<le> clock (snd (saveKnowledgeBase kb w))"
    using c(4) date_now_clock [of ?wa] by (simp add: s)
  show "DataDir \<in> dirs (snd (saveKnowledgeBase kb w))"
    using dc by (simp add: s)
  show "map_of (files (snd (saveKnowledgeBase kb w))) KnowledgeFile = Some ?doc"
    by (simp add: s update_conv')
  show "map_of (files (snd (saveKnowledgeBase kb w))) p = map_of (files w) p"
    if "\<not> is_safety_backup p" "p \<noteq> KnowledgeFile" "p \<noteq> KnowledgeTmp"
    using that c(6) [of p] by (simp add: s update_conv' delete_conv' date_now_frame)
qed

lemma stamped_fresh_doc: "stamped t (fresh_doc es t0 r) = fresh_doc es t r"
  by (simp add: stamped_def fresh_doc_def)

lemma load_try_quiet:
  assumes "faults w = []"
  shows "load_try w =
    (let wa = w\<lparr>dirs := insert DataDir (dirs w)\<rparr>
     in case map_of (files w) KnowledgeFile of
          None \<Rightarrow> (Inl ENOENT, wa)
        | Some (Unparseable s) \<Rightarrow> (Inl (SyntaxError ''Unexpected token in JSON''), wa)
        | Some (JsonArray parsed) \<Rightarrow>
            saveKnowledgeBase (fresh_doc parsed (clock w) False) (snd (date_now wa))
        | Some (JsonDocument parsed) \<Rightarrow> (Inr parsed, wa)
        | Some JsonNull \<Rightarrow> (Inl (TypeError ''Cannot read properties of null''), wa)
        | Some (JsonOther s) \<Rightarrow>
            (Inl (Error ''Invalid knowledge base format: entries must be an array''), wa))"
  using assms
  by (simp add: load_try_def ensureDataDirectory_quiet fs_readFile_def fault_quiet Let_def
      split_def fst_date_now fresh_doc_def split: option.splits content.splits)

lemma load_document:
  assumes "steady w d"
  shows "loadKnowledgeBase w = (Inr d, w)"
proof -
  from assms have q: "faults w = []" and d: "DataDir \<in> dirs w"
    and f: "map_of (files w) KnowledgeFile = Some (JsonDocument d)"
    by (simp_all add: steady_def)
  have "w\<lparr>dirs := insert DataDir (dirs w)\<rparr> = w"
    using d by (simp add: insert_absorb)
  then have "load_try w = (Inr d, w)"
    using load_try_quiet [OF q] f by (simp add: Let_def)
  then show ?thesis
    unfolding loadKnowledgeBase_def
    by (subst loadKnowledgeBase_loop.simps) (simp add: kbMaxRetries_def)
qed

lemma save_steady:
  assumes "faults w = []"
  shows "\<exists>w'. saveKnowledgeBase kb w = (Inr (stamped (clock w) kb), w') \<and>
           steady w' (stamped (clock w) kb) \<and> rands w' = rands w \<and> slept w' = slept w \<and>
           clock w \<le> clock w' \<and>
           (\<forall>t. map_of (files w') (CorruptedBackup t) = map_of (files w) (CorruptedBackup t))"
proof -
  note s = saveKnowledgeBase_quiet [OF assms, where kb = kb]
  have "saveKnowledgeBase kb w = (Inr (stamped (clock w) kb), snd (saveKnowledgeBase kb w))"
    using s(1) by (metis prod.collapse)
  moreover have "steady (snd (saveKnowledgeBase kb w)) (stamped (clock w) kb)"
    using s(2,6,7) by (simp add: steady_def)
  moreover have "map_of (files (snd (saveKnowledgeBase kb w))) (CorruptedBackup t) =
      map_of (files w) (CorruptedBackup t)" for t
    by (rule s(8)) simp_all
  ultimately show ?thesis
    using s(3,4,5) by blast
qed

lemma code_ENOENT: "code ENOENT = Some ''ENOENT''"
  by (simp add: ENOENT_def)

lemma load_absent:
  assumes q: "faults w = []" and f: "map_of (files w) KnowledgeFile = None"
  shows "\<exists>t w'. loadKnowledgeBase w = (Inr (fresh_doc [] t False), w') \<and>
           steady w' (fresh_doc [] t False) \<and> clock w \<le> t \<and>
           rands w' = rands w \<and> slept w' = slept w \<and> clock w \<le> clock w'"
proof -
  let ?wa = "w\<lparr>dirs := insert DataDir (dirs w)\<rparr>"
  let ?wb = "snd (date_now ?wa)"
  have qb: "faults ?wb = []"
    using q by (simp add: date_now_frame)
  have "load_try w = (Inl ENOENT, ?wa)"
    using load_try_quiet [OF q] f by (simp add: Let_def)
  then have l: "loadKnowledgeBase w = saveKnowledgeBase (fresh_doc [] (clock w) False) ?wb"
    unfolding loadKnowledgeBase_def
    by (subst loadKnowledgeBase_loop.simps)
       (simp add: kbMaxRetries_def code_ENOENT split_def fst_date_now fresh_doc_def)
  from save_steady [OF qb, of "fresh_doc [] (clock w) False"]
  obtain w' where "saveKnowledgeBase (fresh_doc [] (clock w) False) ?wb =
        (Inr (fresh_doc [] (clock ?wb) False), w')"
    and "steady w' (fresh_doc [] (clock ?wb) False)"
    and "rands w' = rands ?wb" "slept w' = slept ?wb" "clock ?wb \<le> clock w'"
    by (auto simp: stamped_fresh_doc)
  moreover have "clock w \<le> clock ?wb"
    using date_now_clock [of ?wa] by simp
  ultimately show ?thesis
    unfolding l by (intro exI [of _ "clock ?wb"] exI [of _ w']) (simp add: date_now_frame)
qed

lemma load_legacy:
  assumes q: "faults w = []" and f: "map_of (files w) KnowledgeFile = Some (JsonArray es)"
  shows "\<exists>t w'. loadKnowledgeBase w = (Inr (fresh_doc es t False), w') \<and>
           steady w' (fresh_doc es t False) \<and> clock w \<le> t \<and>
           rands w' = rands w \<and> slept w' = slept w \<and> clock w \<le> clock w'"
proof -
  let ?wa = "w\<lparr>dirs := insert DataDir (dirs w)\<rparr>"
  let ?wb = "snd (date_now ?wa)"
  have qb: "faults ?wb = []"
    using q by (simp add: date_now_frame)
  from save_steady [OF qb, of "fresh_doc es (clock w) False"]
  obtain w' where s: "saveKnowledgeBase (fresh_doc es (clock w) False) ?wb =
        (Inr (fresh_doc es (clock ?wb) False), w')"
    and "steady w' (fresh_doc es (clock ?wb) False)"
    and "rands w' = rands ?wb" "slept w' = slept ?wb" "clock ?wb \<le> clock w'"
    by (auto simp: stamped_fresh_doc)
  moreover have "load_try w = saveKnowledgeBase (fresh_doc es (clock w) False) ?wb"
    using load_try_quiet [OF q] f by (simp add: Let_def)
  then have l: "loadKnowledgeBase w = (Inr (fresh_doc es (clock ?wb) False), w')"
    unfolding loadKnowledgeBase_def
    by (subst loadKnowledgeBase_loop.simps) (simp add: kbMaxRetries_def s)
  moreover have "clock w \<le> clock ?wb"
    using date_now_clock [of ?wa] by simp
  ultimately show ?thesis
    by (intro exI [of _ "clock ?wb"] exI [of _ w']) (simp add: date_now_frame)
qed

lemma createCorruptionBackup_quiet:
  assumes q: "faults w = []" and d: "DataDir \<in> dirs w"
    and f: "map_of (files w) KnowledgeFile = Some c"
  shows "createCorruptionBackup w =
           (snd (date_now w))\<lparr>files := AList.update (CorruptedBackup (clock w)) c (files w)\<rparr>"
  using assms
  by (simp add: createCorruptionBackup_def split_def fs_readFile_def fs_writeFile_def
      fault_quiet date_now_frame fst_date_now)

lemma load_unparseable:
  assumes q: "faults w = []" and f: "map_of (files w) KnowledgeFile = Some (Unparseable s)"
  shows "\<exists>t w'. loadKnowledgeBase w = (Inr (fresh_doc [] t True), w') \<and>
           steady w' (fresh_doc [] t True) \<and> clock w \<le> t \<and>
           rands w' = rands w \<and> slept w' = slept w \<and> clock w \<le> clock w' \<and>
           map_of (files w') (CorruptedBackup (clock w)) = Some (Unparseable s)"
proof -
  let ?wa = "w\<lparr>dirs := insert DataDir (dirs w)\<rparr>"
  let ?wx = "(snd (date_now ?wa))
               \<lparr>files := AList.update (CorruptedBackup (clock w)) (Unparseable s) (files w)\<rparr>"
  let ?wb = "snd (date_now ?wx)"
  have cb: "createCorruptionBackup ?wa = ?wx"
    using createCorruptionBackup_quiet [of ?wa "Unparseable s"] q f by simp
  have qb: "faults ?wb = []"
    using q by (simp add: date_now_frame)
  have "load_try w = (Inl (SyntaxError ''Unexpected token in JSON''), ?wa)"
    using load_try_quiet [OF q] f by (simp add: Let_def)
  then have l: "loadKnowledgeBase w = saveKnowledgeBase (fresh_doc [] (clock ?wx) True) ?wb"
    unfolding loadKnowledgeBase_def
    by (subst loadKnowledgeBase_loop.simps)
       (simp add: kbMaxRetries_def cb split_def fst_date_now fresh_doc_def Let_def)
  from save_steady [OF qb, of "fresh_doc [] (clock ?wx) True"]
  obtain w' where "saveKnowledgeBase (fresh_doc [] (clock ?wx) True) ?wb =
        (Inr (fresh_doc [] (clock ?wb) True), w')"
    and "steady w' (fresh_doc [] (clock ?wb) True)"
    and "rands w' = rands ?wb" "slept w' = slept ?wb" "clock ?wb \<le> clock w'"
    and "\<forall>t. map_of (files w') (CorruptedBackup t) = map_of (files ?wb) (CorruptedBackup t)"
    by (auto simp: stamped_fresh_doc)
  moreover have "clock w \<le> clock ?wb"
    using date_now_clock [of ?wa] date_now_clock [of ?wx] by simp
  moreover have "map_of (files ?wb) (CorruptedBackup (clock w)) = Some (Unparseable s)"
    by (simp add: date_now_frame update_conv')
  ultimately show ?thesis
    unfolding l by (intro exI [of _ "clock ?wb"] exI [of _ w']) (simp add: date_now_frame)
qed

lemma load_malformed:
  assumes q: "faults w = []"
    and f: "map_of (files w) KnowledgeFile = Some JsonNull \<or>
            map_of (files w) KnowledgeFile = Some (JsonOther s)"
  shows "\<exists>m. loadKnowledgeBase w =
           (Inl (Error m),
            w\<lparr>dirs := insert DataDir (dirs w), clock := clock w + 300,
              slept := slept w @ [100, 200]\<rparr>)"
proof -
  obtain e where e: "code e = None" "\<not> instanceof_SyntaxError e"
    and lt: "\<And>v :: world. faults v = [] \<Longrightarrow> files v = files w \<Longrightarrow>
      load_try v = (Inl e, v\<lparr>dirs := insert DataDir (dirs v)\<rparr>)"
  proof (cases "map_of (files w) KnowledgeFile = Some JsonNull")
    case True
    show ?thesis
    proof (rule that [of "TypeError ''Cannot read properties of null''"])
      fix v :: world assume "faults v = []" "files v = files w"
      then show "load_try v = (Inl (TypeError ''Cannot read properties of null''),
          v\<lparr>dirs := insert DataDir (dirs v)\<rparr>)"
        using load_try_quiet [of v] True by (simp add: Let_def)
    qed simp_all
  next
    case False
    with f have o: "map_of (files w) KnowledgeFile = Some (JsonOther s)" by simp
    show ?thesis
    proof (rule that [of "Error ''Invalid knowledge base format: entries must be an array''"])
      fix v :: world assume "faults v = []" "files v = files w"
      then show "load_try v =
          (Inl (Error ''Invalid knowledge base format: entries must be an array''),
           v\<lparr>dirs := insert DataDir (dirs v)\<rparr>)"
        using load_try_quiet [of v] o by (simp add: Let_def)
    qed simp_all
  qed
  let ?w1 = "sleep 100 (w\<lparr>dirs := insert DataDir (dirs w)\<rparr>)"
  let ?w2 = "sleep 200 (?w1\<lparr>dirs := insert DataDir (dirs ?w1)\<rparr>)"
  let ?w3 = "?w2\<lparr>dirs := insert DataDir (dirs ?w2)\<rparr>"
  have l1: "load_try w = (Inl e, w\<lparr>dirs := insert DataDir (dirs w)\<rparr>)"
    using lt [of w] q by simp
  have l2: "load_try ?w1 = (Inl e, ?w1\<lparr>dirs := insert DataDir (dirs ?w1)\<rparr>)"
    using lt [of ?w1] q by (simp add: sleep_def)
  have l3: "load_try ?w2 = (Inl e, ?w3)"
    using lt [of ?w2] q by (simp add: sleep_def)
  have "loadKnowledgeBase w =
      (Inl (Error (''Failed to load knowledge base after 3 attempts: '' @ message_text e)), ?w3)"
    unfolding loadKnowledgeBase_def
    apply (subst loadKnowledgeBase_loop.simps)
    apply (simp add: kbMaxRetries_def l1 e del: One_nat_def)
    apply (subst loadKnowledgeBase_loop.simps)
    apply (simp add: kbMaxRetries_def l2 e)
    apply (subst loadKnowledgeBase_loop.simps)
    apply (simp add: kbMaxRetries_def l3 e)
    apply (subst loadKnowledgeBase_loop.simps)
    apply (simp add: kbMaxRetries_def)
    done
  moreover have "?w3 = w\<lparr>dirs := insert DataDir (dirs w), clock := clock w + 300,
              slept := slept w @ [100, 200]\<rparr>"
    by (simp add: sleep_def)
  ultimately show ?thesis
    by metis
qed

lemma load_steady:
  assumes q: "faults w = []" and l: "loadKnowledgeBase w = (Inr kb, w1)"
  shows "steady w1 kb \<and> clock w \<le> clock w1 \<and> rands w1 = rands w"
proof (cases "map_of (files w) KnowledgeFile")
  case None
  from load_absent [OF q None] l show ?thesis by auto
next
  case (Some c)
  show ?thesis
  proof (cases c)
    case (Unparseable s)
    from load_unparseable [OF q Some [unfolded Unparseable]] l show ?thesis by auto
  next
    case (JsonArray es)
    from load_legacy [OF q Some [unfolded JsonArray]] l show ?thesis by auto
  next
    case (JsonDocument d)
    have "load_try w = (Inr d, w\<lparr>dirs := insert DataDir (dirs w)\<rparr>)"
      using load_try_quiet [OF q] Some JsonDocument by (simp add: Let_def)
    then have "loadKnowledgeBase w = (Inr d, w\<lparr>dirs := insert DataDir (dirs w)\<rparr>)"
      unfolding loadKnowledgeBase_def
      by (subst loadKnowledgeBase_loop.simps) (simp add: kbMaxRetries_def)
    with l q Some JsonDocument show ?thesis
      by (auto simp: steady_def)
  next
    case JsonNull
    from load_malformed [OF q, of undefined] Some JsonNull l show ?thesis by auto
  next
    case (JsonOther s)
    from load_malformed [OF q, of s] Some JsonOther l show ?thesis by auto
  qed
qed

lemma steady_world_with: "steady (world_with (JsonDocument d)) d"
  by (simp add: steady_def world_with_def world_empty_def)

lemma getAllEntries_steady: "steady w d \<Longrightarrow> getAllEntries w = (Inr (entries d), w)"
  by (simp add: getAllEntries_def load_document)

lemma recover_quiet:
  assumes q: "faults v = []" and d: "DataDir \<in> dirs v"
    and f: "map_of (files v) KnowledgeFile = Some c"
    and a: "attempt < 3" and l: "load_try u = (Inl (SyntaxError m), v)"
  shows "\<exists>t w'. loadKnowledgeBase_loop attempt lastError u = (Inr (fresh_doc [] t True), w') \<and>
           steady w' (fresh_doc [] t True) \<and> slept w' = slept v \<and>
           map_of (files w') (CorruptedBackup (clock v)) = Some c"
proof -
  let ?wx = "(snd (date_now v))\<lparr>files := AList.update (CorruptedBackup (clock v)) c (files v)\<rparr>"
  let ?wb = "snd (date_now ?wx)"
  have cb: "createCorruptionBackup v = ?wx"
    by (rule createCorruptionBackup_quiet [OF q d f])
  have qb: "faults ?wb = []"
    using q by (simp add: date_now_frame)
  have l': "loadKnowledgeBase_loop attempt lastError u =
      saveKnowledgeBase (fresh_doc [] (clock ?wx) True) ?wb"
    using a
    by (subst loadKnowledgeBase_loop.simps)
       (simp add: kbMaxRetries_def l cb split_def fst_date_now fresh_doc_def Let_def)
  from save_steady [OF qb, of "fresh_doc [] (clock ?wx) True"]
  obtain w' where "saveKnowledgeBase (fresh_doc [] (clock ?wx) True) ?wb =
        (Inr (fresh_doc [] (clock ?wb) True), w')"
    and "steady w' (fresh_doc [] (clock ?wb) True)"
    and "slept w' = slept ?wb"
    and "\<forall>t. map_of (files w') (CorruptedBackup t) = map_of (files ?wb) (CorruptedBackup t)"
    by (auto simp: stamped_fresh_doc)
  moreover have "map_of (files ?wb) (CorruptedBackup (clock v)) = Some c"
    by (simp add: date_now_frame update_conv')
  ultimately show ?thesis
    unfolding l' by (intro exI [of _ "clock ?wb"] exI [of _ w']) (simp add: date_now_frame)
qed

section \<open>Operations on a store whose file holds a document\<close>

lemma js_findIndex_ge: "- 1 \<le> js_findIndex p xs"
  by (induction xs) (auto simp: Let_def)

lemma js_findIndex_none: "js_findIndex p xs = - 1 \<longleftrightarrow> (\<forall>x \<in> set xs. \<not> p x)"
proof (induction xs)
  case Nil
  then show ?case by simp
next
  case (Cons x xs)
  then show ?case
    using js_findIndex_ge [of p xs] by (auto simp: Let_def)
qed

lemma js_findIndex_first:
  "i < length xs \<Longrightarrow> p (xs ! i) \<Longrightarrow> (\<forall>j < i. \<not> p (xs ! j)) \<Longrightarrow> js_findIndex p xs = int i"
proof (induction xs arbitrary: i)
  case Nil
  then show ?case by simp
next
  case (Cons x xs)
  show ?case
  proof (cases i)
    case 0
    with Cons.prems show ?thesis by simp
  next
    case (Suc n)
    with Cons.prems have "\<not> p x" by auto
    moreover have "js_findIndex p xs = int n"
      using Cons.prems Suc by (intro Cons.IH) auto
    ultimately show ?thesis
      using Suc by (simp add: Let_def)
  qed
qed

lemma math_random_frame:
  "files (snd (math_random w)) = files w"
  "dirs (snd (math_random w)) = dirs w"
  "clock (snd (math_random w)) = clock w"
  "ticks (snd (math_random w)) = ticks w"
  "faults (snd (math_random w)) = faults w"
  "slept (snd (math_random w)) = slept w"
  by (simp_all add: math_random_def split: list.splits)

lemma generateId_frame:
  "files (snd (generateId w)) = files w"
  "dirs (snd (generateId w)) = dirs w"
  "faults (snd (generateId w)) = faults w"
  "slept (snd (generateId w)) = slept w"
  "clock w \<le> clock (snd (generateId w))"
  using date_now_clock [of w]
  by (simp_all add: generateId_def split_def Let_def math_random_frame date_now_frame)


lemma createEntry_steady:
  assumes s: "steady w1 kb" and l: "loadKnowledgeBase w = (Inr kb, w1)"
  shows "\<exists>e w' d'. createEntry key val tags w = (Inr e, w') \<and>
      e = \<lparr>entry_id = fst (generateId w1), entry_key = trim key, entry_value = trim val,
           entry_tags = tags, createdAt = clock (snd (generateId w1)),
           updatedAt = clock (snd (date_now (snd (generateId w1))))\<rparr> \<and>
      steady w' d' \<and> entries d' = entries kb @ [e]"
proof -
  let ?wb = "snd (generateId w1)"
  let ?wc = "snd (date_now ?wb)"
  let ?wd = "snd (date_now ?wc)"
  let ?e = "\<lparr>entry_id = fst (generateId w1), entry_key = trim key, entry_value = trim val,
           entry_tags = tags, createdAt = clock ?wb, updatedAt = clock ?wc\<rparr>"
  let ?kb = "kb\<lparr>entries := entries kb @ [?e]\<rparr>"
  have q: "faults ?wd = []"
    using s by (simp add: steady_def date_now_frame generateId_frame)
  from save_steady [OF q, of ?kb] obtain w' where
    sv: "saveKnowledgeBase ?kb ?wd = (Inr (stamped (clock ?wd) ?kb), w')"
    and st: "steady w' (stamped (clock ?wd) ?kb)"
    by blast
  have "createEntry key val tags w = (Inr ?e, w')"
    using l sv by (simp add: createEntry_def split_def Let_def fst_date_now)
  moreover have "entries (stamped (clock ?wd) ?kb) = entries kb @ [?e]"
    by (simp add: stamped_def)
  ultimately show ?thesis
    using st by blast
qed

lemma updateEntry_steady:
  assumes s: "steady w d" and i: "i < length (entries d)"
    and p: "entry_id (entries d ! i) = ident" and first: "\<forall>j < i. entry_id (entries d ! j) \<noteq> ident"
  shows "\<exists>w' d'. updateEntry ident u w =
        (Inr ((spread (entries d ! i) u)\<lparr>entry_id := ident, updatedAt := clock w\<rparr>), w') \<and>
      steady w' d' \<and>
      entries d' = (entries d)
        [i := (spread (entries d ! i) u)\<lparr>entry_id := ident, updatedAt := clock w\<rparr>]"
proof -
  let ?wa = "snd (date_now w)"
  let ?e = "(spread (entries d ! i) u)\<lparr>entry_id := ident, updatedAt := clock w\<rparr>"
  let ?kb = "d\<lparr>entries := (entries d)[i := ?e]\<rparr>"
  have idx: "js_findIndex (\<lambda>entry. entry_id entry = ident) (entries d) = int i"
    using i p first by (intro js_findIndex_first) auto
  have q: "faults ?wa = []"
    using s by (simp add: steady_def date_now_frame)
  from save_steady [OF q, of ?kb] obtain w' where
    sv: "saveKnowledgeBase ?kb ?wa = (Inr (stamped (clock ?wa) ?kb), w')"
    and st: "steady w' (stamped (clock ?wa) ?kb)"
    by blast
  have "updateEntry ident u w = (Inr ?e, w')"
    using load_document [OF s] idx sv p
    by (simp add: updateEntry_def split_def Let_def fst_date_now)
  moreover have "entries (stamped (clock ?wa) ?kb) = (entries d)[i := ?e]"
    by (simp add: stamped_def)
  ultimately show ?thesis
    using st by blast
qed

lemma updateEntry_unknown:
  assumes s: "steady w d" and u: "\<forall>e \<in> set (entries d). entry_id e \<noteq> ident"
  shows "updateEntry ident u' w = (Inl (Error (''Entry with ID '' @ ident @ '' not found'')), w)"
proof -
  have "js_findIndex (\<lambda>entry. entry_id entry = ident) (entries d) = - 1"
    using u by (simp add: js_findIndex_none)
  then show ?thesis
    using load_document [OF s] by (simp add: updateEntry_def Let_def)
qed

lemma deleteEntry_steady:
  assumes s: "steady w d" and i: "i < length (entries d)"
    and p: "entry_id (entries d ! i) = ident" and first: "\<forall>j < i. entry_id (entries d ! j) \<noteq> ident"
  shows "\<exists>w' d'. deleteEntry ident w = (Inr (entries d ! i), w') \<and>
      steady w' d' \<and> entries d' = take i (entries d) @ drop (Suc i) (entries d)"
proof -
  let ?kb = "d\<lparr>entries := take i (entries d) @ drop (Suc i) (entries d)\<rparr>"
  have idx: "js_findIndex (\<lambda>entry. entry_id entry = ident) (entries d) = int i"
    using i p first by (intro js_findIndex_first) auto
  have q: "faults w = []"
    using s by (simp add: steady_def)
  from save_steady [OF q, of ?kb] obtain w' where
    sv: "saveKnowledgeBase ?kb w = (Inr (stamped (clock w) ?kb), w')"
    and st: "steady w' (stamped (clock w) ?kb)"
    by blast
  have "deleteEntry ident w = (Inr (entries d ! i), w')"
    using load_document [OF s] idx sv
    by (simp add: deleteEntry_def Let_def)
  moreover have "entries (stamped (clock w) ?kb) = take i (entries d) @ drop (Suc i) (entries d)"
    by (simp add: stamped_def)
  ultimately show ?thesis
    using st by blast
qed

lemma deleteEntry_unknown:
  assumes s: "steady w d" and u: "\<forall>e \<in> set (entries d). entry_id e \<noteq> ident"
  shows "deleteEntry ident w = (Inl (Error (''Entry with ID '' @ ident @ '' not found'')), w)"
proof -
  have "js_findIndex (\<lambda>entry. entry_id entry = ident) (entries d) = - 1"
    using u by (simp add: js_findIndex_none)
  then show ?thesis
    using load_document [OF s] by (simp add: deleteEntry_def Let_def)
qed

lemma first_index:
  assumes "\<exists>e \<in> set xs. p e"
  shows "\<exists>i < length xs. p (xs ! i) \<and> (\<forall>j < i. \<not> p (xs ! j))"
proof -
  from assms obtain k where "k < length xs" "p (xs ! k)"
    by (auto simp: in_set_conv_nth)
  then have ex: "\<exists>k. k < length xs \<and> p (xs ! k)" by blast
  define i where "i = (LEAST k. k < length xs \<and> p (xs ! k))"
  from LeastI_ex [OF ex] have "i < length xs \<and> p (xs ! i)"
    unfolding i_def .
  moreover have "\<not> p (xs ! j)" if "j < i" for j
    using not_less_Least [of j "\<lambda>k. k < length xs \<and> p (xs ! k)"] that
      \<open>i < length xs \<and> p (xs ! i)\<close>
    unfolding i_def by auto
  ultimately show ?thesis by blast
qed



lemma distinct_list_update_same:
  assumes "distinct (map f xs)" and "i < length xs" and "f y = f (xs ! i)"
  shows "distinct (map f (xs[i := y]))"
proof -
  have "map f (xs[i := y]) = map f xs"
    using assms(2,3) by (simp add: map_update list_update_same_conv)
  with assms(1) show ?thesis by simp
qed

lemma distinct_remove_nth:
  assumes "distinct (map f xs)"
  shows "distinct (map f (take i xs @ drop (Suc i) xs))"
proof -
  have "distinct (map f (take i xs @ drop i xs))"
    using assms by simp
  then have "distinct (map f (take i xs)) \<and> distinct (map f (drop i xs)) \<and>
      set (map f (take i xs)) \<inter> set (map f (drop i xs)) = {}"
    by (simp only: map_append distinct_append)
  moreover have "set (drop (Suc i) xs) \<subseteq> set (drop i xs)"
    by (metis drop_Suc set_drop_subset tl_drop drop_drop plus_1_eq_Suc)
  moreover have "distinct (map f (drop (Suc i) xs))"
    using assms by (simp add: drop_map [symmetric] distinct_drop)
  ultimately show ?thesis
    by (auto simp: distinct_append)
qed

lemma trim_idem: "trim (trim s) = trim s"
proof -
  define t where "t = dropWhile is_space s"
  define t' where "t' = rev (dropWhile is_space (rev t))"
  have ts: "trim s = t'"
    by (simp add: trim_def t_def t'_def)
  have split: "t = t' @ rev (takeWhile is_space (rev t))"
    unfolding t'_def
    by (metis rev_append rev_rev_ident takeWhile_dropWhile_id)
  have lead: "dropWhile is_space t' = t'"
  proof (cases t')
    case Nil
    then show ?thesis by simp
  next
    case (Cons x xs)
    have "t \<noteq> []"
      using split Cons by (metis append_is_Nil_conv list.distinct(1))
    moreover have "hd t = x"
      using split Cons by (metis hd_append2 list.distinct(1) list.sel(1))
    ultimately have "\<not> is_space x"
      using hd_dropWhile [of is_space s] unfolding t_def by auto
    with Cons show ?thesis by simp
  qed
  have "trim t' = rev (dropWhile is_space (rev t'))"
    by (simp add: trim_def lead)
  also have "rev t' = dropWhile is_space (rev t)"
    by (simp add: t'_def)
  also have "rev (dropWhile is_space (dropWhile is_space (rev t))) = t'"
    by (simp add: t'_def)
  finally show ?thesis
    by (simp add: ts)
qed

lemma persisted_steady: "steady w d \<Longrightarrow> persisted_invariant w = doc_invariant d"
  by (simp add: persisted_invariant_def steady_def)

lemma run_read_load:
  assumes q: "faults w = []" and l: "loadKnowledgeBase w = (r, w1)"
  shows "run_read op w = (returned r, w1)"
proof (cases r)
  case (Inl e)
  with l show ?thesis
    by (cases op)
       (simp_all add: getAllEntries_def getEntryById_def searchEntries_def
          getRelevantContext_def getStats_def)
next
  case (Inr kb)
  with load_steady [OF q] l have "steady w1 kb" by simp
  then have "loadKnowledgeBase w1 = (Inr kb, w1)"
    by (rule load_document)
  with l Inr show ?thesis
    by (cases op)
       (simp_all add: getAllEntries_def getEntryById_def searchEntries_def
          getRelevantContext_def getStats_def Let_def)
qed

section \<open>The relevance score is the additive formula\<close>

text \<open>
  Claim C1. For every entry and every query, \<open>calculateRelevanceScore\<close> computes the
  additive formula: 100 when the lower-cased key equals the query, otherwise 50 when
  the key contains the query; plus 40 when a lower-cased tag equals the query; plus 20
  when the lower-cased value contains the query; plus 10 for every pair of a word of
  the query and a word of the key (both split at white space) of which one contains
  the other. The bonuses stack: the key \<open>Pricing\<close> with the query \<open>pricing\<close> scores
  110, the exact match and one pair of words.
\<close>

theorem calculateRelevanceScore_additive:
  "calculateRelevanceScore entry query = additive_score entry query \<and>
   calculateRelevanceScore
     \<lparr>entry_id = ''1'', entry_key = ''Pricing'', entry_value = [], entry_tags = [],
      createdAt = 0, updatedAt = 0\<rparr> ''pricing'' = 110"
proof
  show "calculateRelevanceScore entry query = additive_score entry query"
    unfolding calculateRelevanceScore_def additive_score_def word_pairs_def Let_def
    by (auto simp: fold_outer_count includes_sublist toLowerCase_def image_iff disj_commute)
  show "calculateRelevanceScore
     \<lparr>entry_id = ''1'', entry_key = ''Pricing'', entry_value = [], entry_tags = [],
      createdAt = 0, updatedAt = 0\<rparr> ''pricing'' = 110"
    by code_simp
qed

section \<open>Ranked search\<close>

text \<open>
  A negative limit does not give the first \<open>limit\<close> entries, and not at most \<open>limit\<close> of
  them: \<open>slice(0, -1)\<close> drops the last entry. Of three stored entries a blank query
  with limit \<open>-1\<close> returns two, and of the two entries that match \<open>pricing\<close> the same
  limit returns one.
\<close>

theorem searchEntries_negative_limit:
  "searchEntries [] (- 1) (world_with (JsonDocument doc_three)) =
     (Inr (Plain [entry_pricing, entry_plans]), world_with (JsonDocument doc_three)) \<and>
   searchEntries ''pricing'' (- 1) (world_with (JsonDocument doc_three)) =
     (Inr (Scored [(entry_pricing, 110)]), world_with (JsonDocument doc_three))"
  by code_simp

text \<open>
  Claim C2, amended. Let \<open>getAllEntries\<close> return the stored entries \<open>es\<close>. For a query that
  is empty or only white space, \<open>searchEntries\<close> returns the first \<open>limit\<close> entries of
  \<open>es\<close> in stored order, unscored. For any other query it returns the first \<open>limit\<close>
  elements of a list \<open>ranked\<close> that pairs entries with their score against the
  trimmed, lower-cased query, is in descending order of score, and holds for each
  score \<open>k\<close> exactly the stored entries of score \<open>k\<close> when \<open>k\<close> is positive, in stored
  order, and none when it is not. All this for \<open>limit\<close> at least 0; a negative \<open>limit\<close>
  cuts the last \<open>-limit\<close> elements off instead.
\<close>

theorem searchEntries_ranked:
  assumes "getAllEntries w = (Inr es, w')"
  shows "\<exists>ranked.
     searchEntries query limit w =
       (Inr (if trim query = []
             then Plain (if 0 \<le> limit then take (nat limit) es
                         else take (length es - nat (- limit)) es)
             else Scored (if 0 \<le> limit then take (nat limit) ranked
                          else take (length ranked - nat (- limit)) ranked)), w') \<and>
     sorted_wrt (\<lambda>a b. snd b \<le> snd a) ranked \<and>
     (\<forall>r \<in> set ranked. snd r = calculateRelevanceScore (fst r) (trim (toLowerCase query))) \<and>
     (\<forall>k. map fst (filter (\<lambda>r. snd r = k) ranked) =
          filter (\<lambda>e. calculateRelevanceScore e (trim (toLowerCase query)) = k \<and> 0 < k) es)"
proof -
  define score where "score e = calculateRelevanceScore e (trim (toLowerCase query))" for e
  define ranked where
    "ranked = sort_key (\<lambda>r. - snd r) (map (\<lambda>e. (e, score e)) (filter (\<lambda>e. score e > 0) es))"
  have cut: "js_slice xs 0 limit =
      (if 0 \<le> limit then take (nat limit) xs else take (length xs - nat (- limit)) xs)"
    for xs :: "'a list"
    by (simp add: js_slice_take js_slice_negative)
  have blank: "trim query = [] \<Longrightarrow> searchEntries_on es query limit = Plain (js_slice es 0 limit)"
    by (simp add: searchEntries_on_def)
  have "searchEntries query limit w =
      (Inr (if trim query = [] then Plain (js_slice es 0 limit)
            else Scored (js_slice ranked 0 limit)), w')"
    using assms blank searchEntries_on_scored [of query es limit]
    by (simp add: searchEntries_def ranked_def score_def)
  then have 1: "searchEntries query limit w =
       (Inr (if trim query = []
             then Plain (if 0 \<le> limit then take (nat limit) es
                         else take (length es - nat (- limit)) es)
             else Scored (if 0 \<le> limit then take (nat limit) ranked
                          else take (length ranked - nat (- limit)) ranked)), w')"
    by (simp only: cut)
  have "sorted (map (\<lambda>r. - snd r) ranked)"
    unfolding ranked_def by (rule sorted_sort_key)
  then have 2: "sorted_wrt (\<lambda>a b. snd b \<le> snd a) ranked"
    by (simp add: sorted_map)
  have 3: "\<forall>r \<in> set ranked. snd r = score (fst r)"
    unfolding ranked_def by auto
  have 4: "map fst (filter (\<lambda>r. snd r = k) ranked) = filter (\<lambda>e. score e = k \<and> 0 < k) es" for k
  proof -
    have "filter (\<lambda>r. snd r = k) ranked =
        filter (\<lambda>r. - snd r = - k) (map (\<lambda>e. (e, score e)) (filter (\<lambda>e. score e > 0) es))"
      unfolding ranked_def using sort_key_stable [of "\<lambda>r. - snd r" "- k"] by simp
    then show ?thesis
      by (simp add: filter_map comp_def conj_commute cong: conj_cong)
  qed
  from 1 2 3 4 show ?thesis
    unfolding score_def by blast
qed

theorem searchEntries_ranked_witness:
  "getAllEntries (world_with (JsonDocument doc_three)) =
     (Inr [entry_pricing, entry_plans, entry_hours], world_with (JsonDocument doc_three)) \<and>
   (\<exists>ranked.
     searchEntries ''Pricing '' 2 (world_with (JsonDocument doc_three)) =
       (Inr (if trim ''Pricing '' = []
             then Plain (if (0::int) \<le> 2 then take (nat 2) [entry_pricing, entry_plans, entry_hours]
                         else take (length [entry_pricing, entry_plans, entry_hours] - nat (- 2))
                                [entry_pricing, entry_plans, entry_hours])
             else Scored (if (0::int) \<le> 2 then take (nat 2) ranked
                          else take (length ranked - nat (- 2)) ranked)),
        world_with (JsonDocument doc_three)) \<and>
     sorted_wrt (\<lambda>a b. snd b \<le> snd a) ranked \<and>
     (\<forall>r \<in> set ranked. snd r = calculateRelevanceScore (fst r) (trim (toLowerCase ''Pricing ''))) \<and>
     (\<forall>k. map fst (filter (\<lambda>r. snd r = k) ranked) =
          filter (\<lambda>e. calculateRelevanceScore e (trim (toLowerCase ''Pricing '')) = k \<and> 0 < k)
            [entry_pricing, entry_plans, entry_hours])) \<and>
   searchEntries ''Pricing '' 2 (world_with (JsonDocument doc_three)) =
     (Inr (Scored [(entry_pricing, 110), (entry_plans, 100)]), world_with (JsonDocument doc_three))"
proof -
  have g: "getAllEntries (world_with (JsonDocument doc_three)) =
     (Inr [entry_pricing, entry_plans, entry_hours], world_with (JsonDocument doc_three))"
    using getAllEntries_steady [OF steady_world_with, of doc_three]
    by (simp add: doc_three_def)
  have v: "searchEntries ''Pricing '' 2 (world_with (JsonDocument doc_three)) =
     (Inr (Scored [(entry_pricing, 110), (entry_plans, 100)]), world_with (JsonDocument doc_three))"
    by code_simp
  show ?thesis
    using g v searchEntries_ranked [OF g, of "''Pricing ''" 2]
    by blast
qed

section \<open>Tier fallback of the gateway\<close>

text \<open>
  Claim C3. For a gateway with three tiers standing at tier 0: when the service throws
  a quota error on tier 0 and on tier 1 and then answers on tier 2, \<open>generateResponse\<close>
  returns the text with the model name and the tier label of tier 2; when the service
  throws a quota error on all three tiers, \<open>generateResponse\<close> throws the error
  "All Gemini model tiers have reached their limits" and records the time of the
  failure; and whatever the service does, it is called at most once per tier.
\<close>

theorem gateway_fallback:
  assumes tiers: "modelTiers g = [t0, t1, t2]" and start: "currentModelIndex g = 0"
  shows "(isQuotaError e0 \<and> isQuotaError e1 \<and>
          service 0 (name t0) (constructPrompt prompt ctx) = Inl e0 \<and>
          service 1 (name t1) (constructPrompt prompt ctx) = Inl e1 \<and>
          service 2 (name t2) (constructPrompt prompt ctx) = Inr reply
          \<longrightarrow> generateResponse service now g prompt ctx =
                (Inr \<lparr>response = reply, modelUsed = name t2, tierUsed = tier t2\<rparr>,
                 [name t0, name t1, name t2],
                 g\<lparr>currentModelIndex := 2, timers := timers g @ [retryDelay g]\<rparr>))
       \<and> (isQuotaError e0 \<and> isQuotaError e1 \<and> isQuotaError e2 \<and>
          service 0 (name t0) (constructPrompt prompt ctx) = Inl e0 \<and>
          service 1 (name t1) (constructPrompt prompt ctx) = Inl e1 \<and>
          service 2 (name t2) (constructPrompt prompt ctx) = Inl e2
          \<longrightarrow> generateResponse service now g prompt ctx =
                (Inl (Error ''All Gemini model tiers have reached their limits. Please try again later.''),
                 [name t0, name t1, name t2],
                 g\<lparr>currentModelIndex := 2, lastFailureTime := Some now\<rparr>))
       \<and> length (fst (snd (generateResponse service now g prompt ctx))) \<le> length (modelTiers g)"
proof (intro conjI impI)
  assume a: "isQuotaError e0 \<and> isQuotaError e1 \<and>
          service 0 (name t0) (constructPrompt prompt ctx) = Inl e0 \<and>
          service 1 (name t1) (constructPrompt prompt ctx) = Inl e1 \<and>
          service 2 (name t2) (constructPrompt prompt ctx) = Inr reply"
  show "generateResponse service now g prompt ctx =
                (Inr \<lparr>response = reply, modelUsed = name t2, tierUsed = tier t2\<rparr>,
                 [name t0, name t1, name t2],
                 g\<lparr>currentModelIndex := 2, timers := timers g @ [retryDelay g]\<rparr>)"
    using a tiers start
    by (simp add: generateResponse_def generateResponse_loop.simps getCurrentModel_def
        switchToNextTier_def Let_def eval_nat_numeral)
next
  assume a: "isQuotaError e0 \<and> isQuotaError e1 \<and> isQuotaError e2 \<and>
          service 0 (name t0) (constructPrompt prompt ctx) = Inl e0 \<and>
          service 1 (name t1) (constructPrompt prompt ctx) = Inl e1 \<and>
          service 2 (name t2) (constructPrompt prompt ctx) = Inl e2"
  show "generateResponse service now g prompt ctx =
                (Inl (Error ''All Gemini model tiers have reached their limits. Please try again later.''),
                 [name t0, name t1, name t2],
                 g\<lparr>currentModelIndex := 2, lastFailureTime := Some now\<rparr>)"
    using a tiers start
    by (simp add: generateResponse_def generateResponse_loop.simps getCurrentModel_def
        switchToNextTier_def Let_def eval_nat_numeral)
next
  show "length (fst (snd (generateResponse service now g prompt ctx))) \<le> length (modelTiers g)"
    using loop_calls_bound [of service now prompt ctx "length (modelTiers g)" 0 None "[]" g]
    by (simp add: generateResponse_def)
qed

theorem gateway_fallback_witness:
  "generateResponse
     (\<lambda>n model prompt. if n < 2 then Inl (Error ''429 Too Many Requests'') else Inr ''Hello'')
     1000
     \<lparr>modelTiers =
        [\<lparr>name = ''gemini-2.0-flash-exp'', tier = ''pro''\<rparr>,
         \<lparr>name = ''gemini-1.5-flash'', tier = ''flash''\<rparr>,
         \<lparr>name = ''gemini-1.5-flash-8b'', tier = ''flash-lite''\<rparr>],
      currentModelIndex = 0, lastFailureTime = None, retryDelay = 60000, timers = []\<rparr>
     ''Hi'' [] =
   (Inr \<lparr>response = ''Hello'', modelUsed = ''gemini-1.5-flash-8b'', tierUsed = ''flash-lite''\<rparr>,
    [''gemini-2.0-flash-exp'', ''gemini-1.5-flash'', ''gemini-1.5-flash-8b''],
    \<lparr>modelTiers =
        [\<lparr>name = ''gemini-2.0-flash-exp'', tier = ''pro''\<rparr>,
         \<lparr>name = ''gemini-1.5-flash'', tier = ''flash''\<rparr>,
         \<lparr>name = ''gemini-1.5-flash-8b'', tier = ''flash-lite''\<rparr>],
      currentModelIndex = 2, lastFailureTime = None, retryDelay = 60000, timers = [60000]\<rparr>)
   \<and>
   generateResponse
     (\<lambda>n model prompt. Inl (Error ''429 Too Many Requests''))
     1000
     \<lparr>modelTiers =
        [\<lparr>name = ''gemini-2.0-flash-exp'', tier = ''pro''\<rparr>,
         \<lparr>name = ''gemini-1.5-flash'', tier = ''flash''\<rparr>,
         \<lparr>name = ''gemini-1.5-flash-8b'', tier = ''flash-lite''\<rparr>],
      currentModelIndex = 0, lastFailureTime = None, retryDelay = 60000, timers = []\<rparr>
     ''Hi'' [] =
   (Inl (Error ''All Gemini model tiers have reached their limits. Please try again later.''),
    [''gemini-2.0-flash-exp'', ''gemini-1.5-flash'', ''gemini-1.5-flash-8b''],
    \<lparr>modelTiers =
        [\<lparr>name = ''gemini-2.0-flash-exp'', tier = ''pro''\<rparr>,
         \<lparr>name = ''gemini-1.5-flash'', tier = ''flash''\<rparr>,
         \<lparr>name = ''gemini-1.5-flash-8b'', tier = ''flash-lite''\<rparr>],
      currentModelIndex = 2, lastFailureTime = Some 1000, retryDelay = 60000, timers = []\<rparr>)"
proof -
  have q: "isQuotaError (Error ''429 Too Many Requests'')"
    by code_simp
  let ?g = "\<lparr>modelTiers =
        [\<lparr>name = ''gemini-2.0-flash-exp'', tier = ''pro''\<rparr>,
         \<lparr>name = ''gemini-1.5-flash'', tier = ''flash''\<rparr>,
         \<lparr>name = ''gemini-1.5-flash-8b'', tier = ''flash-lite''\<rparr>],
      currentModelIndex = 0, lastFailureTime = None, retryDelay = 60000, timers = []\<rparr>"
  have t: "modelTiers ?g = [\<lparr>name = ''gemini-2.0-flash-exp'', tier = ''pro''\<rparr>,
         \<lparr>name = ''gemini-1.5-flash'', tier = ''flash''\<rparr>,
         \<lparr>name = ''gemini-1.5-flash-8b'', tier = ''flash-lite''\<rparr>]"
    and i: "currentModelIndex ?g = 0"
    by simp_all
  show ?thesis
    using gateway_fallback [OF t i,
        of "Error ''429 Too Many Requests''" "Error ''429 Too Many Requests''"
          "\<lambda>n model prompt. if n < 2 then Inl (Error ''429 Too Many Requests'') else Inr ''Hello''"
          "''Hi''" "[]" "''Hello''" 1000 "Error ''429 Too Many Requests''"]
      gateway_fallback [OF t i,
        of "Error ''429 Too Many Requests''" "Error ''429 Too Many Requests''"
          "\<lambda>n model prompt. Inl (Error ''429 Too Many Requests'')"
          "''Hi''" "[]" "''Hello''" 1000 "Error ''429 Too Many Requests''"]
      q
    by simp
qed

text \<open>
  Claim C4. When the service throws an error that \<open>isQuotaError\<close> does not classify as
  a quota error, \<open>generateResponse\<close> throws that same error at once and does not
  switch tiers: the service, and so its current tier index, is as it was before the
  call. This holds at every attempt of the loop, and in particular at the first.
\<close>

theorem nonquota_passthrough:
  assumes "attempt < maxRetries" and "getCurrentModel g = Inr model"
    and "service attempt (name model) (constructPrompt prompt ctx) = Inl e"
    and "\<not> isQuotaError e"
  shows "generateResponse_loop service now prompt ctx maxRetries attempt lastError calls g =
           (Inl e, calls @ [name model], g) \<and>
         (attempt = 0 \<and> maxRetries = length (modelTiers g) \<longrightarrow>
            generateResponse service now g prompt ctx = (Inl e, [name model], g))"
proof -
  have "generateResponse_loop service now prompt ctx maxRetries attempt lastError calls g =
           (Inl e, calls @ [name model], g)" for lastError calls
    using assms by (subst generateResponse_loop.simps) (simp add: Let_def)
  note loop = this
  show ?thesis
  proof (intro conjI impI)
    show "generateResponse_loop service now prompt ctx maxRetries attempt lastError calls g =
           (Inl e, calls @ [name model], g)"
      by (rule loop)
  next
    assume "attempt = 0 \<and> maxRetries = length (modelTiers g)"
    then show "generateResponse service now g prompt ctx = (Inl e, [name model], g)"
      using loop [of None "[]"] by (simp add: generateResponse_def)
  qed
qed

theorem nonquota_passthrough_witness:
  "generateResponse_loop
     (\<lambda>n model prompt. Inl (Error ''API key not valid''))
     1000 ''Hi'' [] 3 0 None []
     \<lparr>modelTiers =
        [\<lparr>name = ''gemini-2.0-flash-exp'', tier = ''pro''\<rparr>,
         \<lparr>name = ''gemini-1.5-flash'', tier = ''flash''\<rparr>,
         \<lparr>name = ''gemini-1.5-flash-8b'', tier = ''flash-lite''\<rparr>],
      currentModelIndex = 0, lastFailureTime = None, retryDelay = 60000, timers = []\<rparr> =
   (Inl (Error ''API key not valid''), [''gemini-2.0-flash-exp''],
    \<lparr>modelTiers =
        [\<lparr>name = ''gemini-2.0-flash-exp'', tier = ''pro''\<rparr>,
         \<lparr>name = ''gemini-1.5-flash'', tier = ''flash''\<rparr>,
         \<lparr>name = ''gemini-1.5-flash-8b'', tier = ''flash-lite''\<rparr>],
      currentModelIndex = 0, lastFailureTime = None, retryDelay = 60000, timers = []\<rparr>)
   \<and>
   generateResponse
     (\<lambda>n model prompt. Inl (Error ''API key not valid''))
     1000
     \<lparr>modelTiers =
        [\<lparr>name = ''gemini-2.0-flash-exp'', tier = ''pro''\<rparr>,
         \<lparr>name = ''gemini-1.5-flash'', tier = ''flash''\<rparr>,
         \<lparr>name = ''gemini-1.5-flash-8b'', tier = ''flash-lite''\<rparr>],
      currentModelIndex = 0, lastFailureTime = None, retryDelay = 60000, timers = []\<rparr>
     ''Hi'' [] =
   (Inl (Error ''API key not valid''), [''gemini-2.0-flash-exp''],
    \<lparr>modelTiers =
        [\<lparr>name = ''gemini-2.0-flash-exp'', tier = ''pro''\<rparr>,
         \<lparr>name = ''gemini-1.5-flash'', tier = ''flash''\<rparr>,
         \<lparr>name = ''gemini-1.5-flash-8b'', tier = ''flash-lite''\<rparr>],
      currentModelIndex = 0, lastFailureTime = None, retryDelay = 60000, timers = []\<rparr>)"
proof -
  have q: "\<not> isQuotaError (Error ''API key not valid'')"
    by code_simp
  let ?g = "\<lparr>modelTiers =
        [\<lparr>name = ''gemini-2.0-flash-exp'', tier = ''pro''\<rparr>,
         \<lparr>name = ''gemini-1.5-flash'', tier = ''flash''\<rparr>,
         \<lparr>name = ''gemini-1.5-flash-8b'', tier = ''flash-lite''\<rparr>],
      currentModelIndex = 0, lastFailureTime = None, retryDelay = 60000, timers = []\<rparr>"
  have m: "getCurrentModel ?g = Inr \<lparr>name = ''gemini-2.0-flash-exp'', tier = ''pro''\<rparr>"
    by (simp add: getCurrentModel_def)
  have a: "(0::nat) < 3"
    by simp
  have s: "(\<lambda>n model prompt. Inl (Error ''API key not valid'')) (0::nat)
             (name \<lparr>name = ''gemini-2.0-flash-exp'', tier = ''pro''\<rparr>)
             (constructPrompt ''Hi'' []) = (Inl (Error ''API key not valid'') :: js_error + string)"
    by simp
  show ?thesis
    using nonquota_passthrough [OF a m s q, where now = 1000 and lastError = None and calls = "[]"]
    by simp
qed

section \<open>Loading: recovery and migration\<close>

text \<open>
  The knowledge file holds text that is not JSON. A parse error is never retried: the
  first two reads of the file fail, the third attempt meets the parse error and
  \<open>loadKnowledgeBase\<close> throws to the caller; and when no call fails the file is reset
  in the first attempt, without any waiting.
\<close>

theorem load_parse_error_not_retried:
  "loadKnowledgeBase ((world_with (Unparseable ''{oops''))\<lparr>faults := [False, True, False, True]\<rparr>) =
     (Inl (Error ''Failed to load knowledge base after 3 attempts: Unexpected token in JSON''),
      (world_with (Unparseable ''{oops''))\<lparr>clock := 1300, slept := [100, 200]\<rparr>)
   \<and> slept (snd (loadKnowledgeBase (world_with (Unparseable ''{oops'')))) = []"
  by code_simp

text \<open>
  Claim C5, amended. When no file-system call fails and the knowledge file is not
  parseable, \<open>loadKnowledgeBase\<close> does not retry and does not wait: in its first
  attempt it copies the file to \<open>corrupted-backup-<time>.json\<close>, writes the empty
  document with \<open>recovered: true\<close> to the knowledge file and returns that document.
  The same happens at once in any attempt before the third that meets a parse error,
  when no later call fails. A parse error that is met in the third attempt is not
  recovered: it is thrown to the caller as "Failed to load knowledge base after 3
  attempts".
\<close>

theorem load_recovers_unparseable:
  "(faults w = [] \<and> map_of (files w) KnowledgeFile = Some (Unparseable s) \<longrightarrow>
      (\<exists>t w'. loadKnowledgeBase w =
                 (Inr \<lparr>entries = [], lastUpdated = Some t, version = Some ''1.0'',
                       recovered = True\<rparr>, w') \<and>
               map_of (files w') KnowledgeFile =
                 Some (JsonDocument \<lparr>entries = [], lastUpdated = Some t, version = Some ''1.0'',
                                     recovered = True\<rparr>) \<and>
               map_of (files w') (CorruptedBackup (clock w)) = Some (Unparseable s) \<and>
               slept w' = slept w))
   \<and> (attempt < 3 \<and> load_try u = (Inl (SyntaxError m), u') \<and> faults u' = [] \<and>
      DataDir \<in> dirs u' \<and> map_of (files u') KnowledgeFile = Some c \<longrightarrow>
      (\<exists>t w'. loadKnowledgeBase_loop attempt err u =
                 (Inr \<lparr>entries = [], lastUpdated = Some t, version = Some ''1.0'',
                       recovered = True\<rparr>, w') \<and>
               map_of (files w') KnowledgeFile =
                 Some (JsonDocument \<lparr>entries = [], lastUpdated = Some t, version = Some ''1.0'',
                                     recovered = True\<rparr>) \<and>
               map_of (files w') (CorruptedBackup (clock u')) = Some c \<and>
               slept w' = slept u'))
   \<and> (load_try v = (Inl (SyntaxError m), v') \<longrightarrow>
        loadKnowledgeBase_loop 3 lastError v =
          (Inl (Error (''Failed to load knowledge base after 3 attempts: '' @ m)), v'))"
proof (intro conjI impI)
  assume "faults w = [] \<and> map_of (files w) KnowledgeFile = Some (Unparseable s)"
  then have q: "faults w = []" and f: "map_of (files w) KnowledgeFile = Some (Unparseable s)"
    by simp_all
  from load_unparseable [OF q f] obtain t w' where
    "loadKnowledgeBase w = (Inr (fresh_doc [] t True), w')"
    "steady w' (fresh_doc [] t True)" "slept w' = slept w"
    "map_of (files w') (CorruptedBackup (clock w)) = Some (Unparseable s)"
    by blast
  then show "\<exists>t w'. loadKnowledgeBase w =
                 (Inr \<lparr>entries = [], lastUpdated = Some t, version = Some ''1.0'',
                       recovered = True\<rparr>, w') \<and>
               map_of (files w') KnowledgeFile =
                 Some (JsonDocument \<lparr>entries = [], lastUpdated = Some t, version = Some ''1.0'',
                                     recovered = True\<rparr>) \<and>
               map_of (files w') (CorruptedBackup (clock w)) = Some (Unparseable s) \<and>
               slept w' = slept w"
    by (intro exI [of _ t] exI [of _ w']) (simp add: fresh_doc_def steady_def)
next
  assume "attempt < 3 \<and> load_try u = (Inl (SyntaxError m), u') \<and> faults u' = [] \<and>
      DataDir \<in> dirs u' \<and> map_of (files u') KnowledgeFile = Some c"
  then have a: "attempt < 3" and l: "load_try u = (Inl (SyntaxError m), u')"
    and q: "faults u' = []" and d: "DataDir \<in> dirs u'"
    and f: "map_of (files u') KnowledgeFile = Some c"
    by simp_all
  from recover_quiet [OF q d f a l, of err] obtain t w' where
    "loadKnowledgeBase_loop attempt err u = (Inr (fresh_doc [] t True), w')"
    "steady w' (fresh_doc [] t True)" "slept w' = slept u'"
    "map_of (files w') (CorruptedBackup (clock u')) = Some c"
    by blast
  then show "\<exists>t w'. loadKnowledgeBase_loop attempt err u =
                 (Inr \<lparr>entries = [], lastUpdated = Some t, version = Some ''1.0'',
                       recovered = True\<rparr>, w') \<and>
               map_of (files w') KnowledgeFile =
                 Some (JsonDocument \<lparr>entries = [], lastUpdated = Some t, version = Some ''1.0'',
                                     recovered = True\<rparr>) \<and>
               map_of (files w') (CorruptedBackup (clock u')) = Some c \<and>
               slept w' = slept u'"
    by (intro exI [of _ t] exI [of _ w']) (simp add: fresh_doc_def steady_def)
next
  assume l: "load_try v = (Inl (SyntaxError m), v')"
  show "loadKnowledgeBase_loop 3 lastError v =
          (Inl (Error (''Failed to load knowledge base after 3 attempts: '' @ m)), v')"
    apply (subst loadKnowledgeBase_loop.simps)
    apply (simp add: kbMaxRetries_def l)
    apply (subst loadKnowledgeBase_loop.simps)
    apply (simp add: kbMaxRetries_def message_text_def)
    done
qed

theorem load_recovers_unparseable_witness:
  "faults (world_with (Unparseable ''{oops'')) = [] \<and>
   map_of (files (world_with (Unparseable ''{oops''))) KnowledgeFile = Some (Unparseable ''{oops'') \<and>
   (\<exists>t w'. loadKnowledgeBase (world_with (Unparseable ''{oops'')) =
              (Inr \<lparr>entries = [], lastUpdated = Some t, version = Some ''1.0'',
                    recovered = True\<rparr>, w') \<and>
            map_of (files w') KnowledgeFile =
              Some (JsonDocument \<lparr>entries = [], lastUpdated = Some t, version = Some ''1.0'',
                                  recovered = True\<rparr>) \<and>
            map_of (files w') (CorruptedBackup (clock (world_with (Unparseable ''{oops''))))
              = Some (Unparseable ''{oops'') \<and>
            slept w' = slept (world_with (Unparseable ''{oops''))) \<and>
   load_try (world_with (Unparseable ''{oops'')) =
     (Inl (SyntaxError ''Unexpected token in JSON''), world_with (Unparseable ''{oops'')) \<and>
   (\<exists>t w'. loadKnowledgeBase_loop 2 (Some EIO) (world_with (Unparseable ''{oops'')) =
              (Inr \<lparr>entries = [], lastUpdated = Some t, version = Some ''1.0'',
                    recovered = True\<rparr>, w') \<and>
            map_of (files w') KnowledgeFile =
              Some (JsonDocument \<lparr>entries = [], lastUpdated = Some t, version = Some ''1.0'',
                                  recovered = True\<rparr>) \<and>
            map_of (files w') (CorruptedBackup (clock (world_with (Unparseable ''{oops''))))
              = Some (Unparseable ''{oops'') \<and>
            slept w' = slept (world_with (Unparseable ''{oops''))) \<and>
   loadKnowledgeBase_loop 3 None (world_with (Unparseable ''{oops'')) =
     (Inl (Error (''Failed to load knowledge base after 3 attempts: '' @ ''Unexpected token in JSON'')),
      world_with (Unparseable ''{oops''))"
proof -
  let ?w = "world_with (Unparseable ''{oops'')"
  have h: "faults ?w = []"
    "map_of (files ?w) KnowledgeFile = Some (Unparseable ''{oops'')"
    "DataDir \<in> dirs ?w" "(2::nat) < 3"
    by (simp_all add: world_with_def world_empty_def)
  have l: "load_try ?w = (Inl (SyntaxError ''Unexpected token in JSON''), ?w)"
    by code_simp
  note t = load_recovers_unparseable [where w = ?w and s = "''{oops''" and attempt = 2
      and u = ?w and u' = ?w and m = "''Unexpected token in JSON''" and c = "Unparseable ''{oops''"
      and err = "Some EIO" and v = ?w and v' = ?w and lastError = None]
  have 1: "\<exists>t w'. loadKnowledgeBase ?w =
              (Inr \<lparr>entries = [], lastUpdated = Some t, version = Some ''1.0'',
                    recovered = True\<rparr>, w') \<and>
            map_of (files w') KnowledgeFile =
              Some (JsonDocument \<lparr>entries = [], lastUpdated = Some t, version = Some ''1.0'',
                                  recovered = True\<rparr>) \<and>
            map_of (files w') (CorruptedBackup (clock ?w)) = Some (Unparseable ''{oops'') \<and>
            slept w' = slept ?w"
    using t h(1,2) by blast
  have 2: "\<exists>t w'. loadKnowledgeBase_loop 2 (Some EIO) ?w =
              (Inr \<lparr>entries = [], lastUpdated = Some t, version = Some ''1.0'',
                    recovered = True\<rparr>, w') \<and>
            map_of (files w') KnowledgeFile =
              Some (JsonDocument \<lparr>entries = [], lastUpdated = Some t, version = Some ''1.0'',
                                  recovered = True\<rparr>) \<and>
            map_of (files w') (CorruptedBackup (clock ?w)) = Some (Unparseable ''{oops'') \<and>
            slept w' = slept ?w"
    using t h l by blast
  have 3: "loadKnowledgeBase_loop 3 None ?w =
     (Inl (Error (''Failed to load knowledge base after 3 attempts: '' @ ''Unexpected token in JSON'')),
      ?w)"
    using t l by blast
  from h(1,2) 1 l 2 3 show ?thesis
    by (intro conjI)
qed

text \<open>
  Claim C6. When no file-system call fails and the knowledge file holds a bare array of
  entries, \<open>loadKnowledgeBase\<close> returns a document whose \<open>entries\<close> is that array, with
  the version \<open>1.0\<close> and a \<open>lastUpdated\<close> time stamp read from the clock, and when it
  returns the knowledge file holds that same document.
\<close>

theorem load_migrates_legacy_array:
  assumes "faults w = []" and "map_of (files w) KnowledgeFile = Some (JsonArray es)"
  shows "\<exists>kb w' t. loadKnowledgeBase w = (Inr kb, w') \<and>
           entries kb = es \<and> version kb = Some ''1.0'' \<and>
           lastUpdated kb = Some t \<and> clock w \<le> t \<and>
           map_of (files w') KnowledgeFile = Some (JsonDocument kb)"
proof -
  from load_legacy [OF assms] obtain t w' where
    "loadKnowledgeBase w = (Inr (fresh_doc es t False), w')"
    "steady w' (fresh_doc es t False)" "clock w \<le> t"
    by blast
  then show ?thesis
    by (intro exI [of _ "fresh_doc es t False"] exI [of _ w'] exI [of _ t])
       (simp add: fresh_doc_def steady_def)
qed

theorem load_migrates_legacy_array_witness:
  "faults (world_with (JsonArray [entry_pricing])) = [] \<and>
   map_of (files (world_with (JsonArray [entry_pricing]))) KnowledgeFile =
     Some (JsonArray [entry_pricing]) \<and>
   (\<exists>kb w' t.
      loadKnowledgeBase (world_with (JsonArray [entry_pricing])) = (Inr kb, w') \<and>
      entries kb = [entry_pricing] \<and> version kb = Some ''1.0'' \<and>
      lastUpdated kb = Some t \<and> clock (world_with (JsonArray [entry_pricing])) \<le> t \<and>
      map_of (files w') KnowledgeFile = Some (JsonDocument kb))"
proof -
  have h: "faults (world_with (JsonArray [entry_pricing])) = []"
    "map_of (files (world_with (JsonArray [entry_pricing]))) KnowledgeFile =
       Some (JsonArray [entry_pricing])"
    by (simp_all add: world_with_def world_empty_def)
  show ?thesis
    using h load_migrates_legacy_array [OF h] by blast
qed

section \<open>Creating and updating entries\<close>




text \<open>
  \<open>updateEntry\<close> sets \<open>updatedAt\<close> to the reading of the clock and does not look at the
  stamp it replaces: a stored entry whose \<open>updatedAt\<close> is ahead of the clock (5000
  against 1000) comes back with the earlier stamp.
\<close>

theorem updateEntry_stamp_behind:
  "fst (updateEntry ''b2'' (update_value ''Four plans'') (world_with (JsonDocument doc_three))) =
     Inr (entry_plans\<lparr>entry_value := ''Four plans'', updatedAt := 1000\<rparr>) \<and>
   updatedAt entry_plans = 5000 \<and>
   entry_plans \<in> set (entries doc_three)"
  by code_simp

text \<open>
  Claim C8, amended. On a store whose file holds a document, and when no file-system
  call fails: for the first stored entry with the given id, \<open>updateEntry\<close> replaces it
  in place by the entry that takes key, value, tags (and \<open>createdAt\<close>) from \<open>updates\<close>
  where \<open>updates\<close> has them and from the existing entry where it has not, keeps the
  existing id whatever \<open>updates\<close> says, and sets \<open>updatedAt\<close> to the reading of the
  clock; so \<open>{value: v2}\<close> leaves key, tags, \<open>createdAt\<close> and id unchanged. The new
  \<open>updatedAt\<close> is at least the previous one whenever the previous one is not ahead of
  the clock. For an id that no stored entry has, \<open>updateEntry\<close> throws "Entry with ID
  ... not found" and leaves the world, and so the stored collection, unchanged.
\<close>

theorem updateEntry_merges:
  assumes "steady w d"
  shows "(i < length (entries d) \<and> entry_id (entries d ! i) = ident \<and>
          (\<forall>j < i. entry_id (entries d ! j) \<noteq> ident) \<longrightarrow>
            (\<exists>e' w' d'. updateEntry ident u w = (Inr e', w') \<and>
               steady w' d' \<and> entries d' = (entries d)[i := e'] \<and>
               entry_id e' = entry_id (entries d ! i) \<and>
               entry_key e' =
                 (case upd_key u of Some v \<Rightarrow> v | None \<Rightarrow> entry_key (entries d ! i)) \<and>
               entry_value e' =
                 (case upd_value u of Some v \<Rightarrow> v | None \<Rightarrow> entry_value (entries d ! i)) \<and>
               entry_tags e' =
                 (case upd_tags u of Some v \<Rightarrow> v | None \<Rightarrow> entry_tags (entries d ! i)) \<and>
               createdAt e' =
                 (case upd_createdAt u of Some v \<Rightarrow> v | None \<Rightarrow> createdAt (entries d ! i)) \<and>
               updatedAt e' = clock w \<and>
               (updatedAt (entries d ! i) \<le> clock w \<longrightarrow>
                  updatedAt (entries d ! i) \<le> updatedAt e')))
       \<and> ((\<forall>e \<in> set (entries d). entry_id e \<noteq> ident) \<longrightarrow>
            updateEntry ident u w =
              (Inl (Error (''Entry with ID '' @ ident @ '' not found'')), w))"
proof (intro conjI impI)
  assume a: "i < length (entries d) \<and> entry_id (entries d ! i) = ident \<and>
          (\<forall>j < i. entry_id (entries d ! j) \<noteq> ident)"
  let ?e = "(spread (entries d ! i) u)\<lparr>entry_id := ident, updatedAt := clock w\<rparr>"
  from a updateEntry_steady [OF assms, of i ident u]
  obtain w' d' where "updateEntry ident u w = (Inr ?e, w')" "steady w' d'"
    "entries d' = (entries d)[i := ?e]"
    by blast
  then show "\<exists>e' w' d'. updateEntry ident u w = (Inr e', w') \<and>
               steady w' d' \<and> entries d' = (entries d)[i := e'] \<and>
               entry_id e' = entry_id (entries d ! i) \<and>
               entry_key e' =
                 (case upd_key u of Some v \<Rightarrow> v | None \<Rightarrow> entry_key (entries d ! i)) \<and>
               entry_value e' =
                 (case upd_value u of Some v \<Rightarrow> v | None \<Rightarrow> entry_value (entries d ! i)) \<and>
               entry_tags e' =
                 (case upd_tags u of Some v \<Rightarrow> v | None \<Rightarrow> entry_tags (entries d ! i)) \<and>
               createdAt e' =
                 (case upd_createdAt u of Some v \<Rightarrow> v | None \<Rightarrow> createdAt (entries d ! i)) \<and>
               updatedAt e' = clock w \<and>
               (updatedAt (entries d ! i) \<le> clock w \<longrightarrow>
                  updatedAt (entries d ! i) \<le> updatedAt e')"
    using a by (intro exI [of _ ?e] exI [of _ w'] exI [of _ d']) (simp add: spread_def)
next
  assume "\<forall>e \<in> set (entries d). entry_id e \<noteq> ident"
  then show "updateEntry ident u w =
      (Inl (Error (''Entry with ID '' @ ident @ '' not found'')), w)"
    by (rule updateEntry_unknown [OF assms])
qed

theorem updateEntry_merges_witness:
  "steady (world_with (JsonDocument doc_three)) doc_three \<and>
   (\<exists>e' w' d'. updateEntry ''a1'' (update_value ''By the day'')
                  (world_with (JsonDocument doc_three)) = (Inr e', w') \<and>
      steady w' d' \<and> entries d' = (entries doc_three)[0 := e'] \<and>
      entry_id e' = entry_id (entries doc_three ! 0) \<and>
      entry_key e' = entry_key (entries doc_three ! 0) \<and>
      entry_value e' = ''By the day'' \<and>
      entry_tags e' = entry_tags (entries doc_three ! 0) \<and>
      createdAt e' = createdAt (entries doc_three ! 0) \<and>
      updatedAt e' = clock (world_with (JsonDocument doc_three)) \<and>
      updatedAt (entries doc_three ! 0) \<le> updatedAt e') \<and>
   updateEntry ''zz'' (update_value ''By the day'') (world_with (JsonDocument doc_three)) =
     (Inl (Error ''Entry with ID zz not found''), world_with (JsonDocument doc_three))"
proof -
  have h: "0 < length (entries doc_three) \<and> entry_id (entries doc_three ! 0) = ''a1'' \<and>
      (\<forall>j < 0. entry_id (entries doc_three ! j) \<noteq> ''a1'')"
    by (simp add: doc_three_def entry_pricing_def)
  have n: "\<forall>e \<in> set (entries doc_three). entry_id e \<noteq> ''zz''"
    by (simp add: doc_three_def entry_pricing_def entry_plans_def entry_hours_def)
  have c: "updatedAt (entries doc_three ! 0) \<le> clock (world_with (JsonDocument doc_three))"
    by (simp add: doc_three_def entry_pricing_def world_with_def world_empty_def)
  have u: "upd_key (update_value ''By the day'') = None"
    "upd_value (update_value ''By the day'') = Some ''By the day''"
    "upd_tags (update_value ''By the day'') = None"
    "upd_createdAt (update_value ''By the day'') = None"
    by (simp_all add: update_value_def)
  from updateEntry_merges [OF steady_world_with, of 0 doc_three "''a1''" "update_value ''By the day''"]
    h c
  obtain e' w' d' where "updateEntry ''a1'' (update_value ''By the day'')
                  (world_with (JsonDocument doc_three)) = (Inr e', w')"
      "steady w' d'" "entries d' = (entries doc_three)[0 := e']"
      "entry_id e' = entry_id (entries doc_three ! 0)"
      "entry_key e' = entry_key (entries doc_three ! 0)"
      "entry_value e' = ''By the day''"
      "entry_tags e' = entry_tags (entries doc_three ! 0)"
      "createdAt e' = createdAt (entries doc_three ! 0)"
      "updatedAt e' = clock (world_with (JsonDocument doc_three))"
      "updatedAt (entries doc_three ! 0) \<le> updatedAt e'"
    unfolding u by auto
  moreover have "updateEntry ''zz'' (update_value ''By the day'') (world_with (JsonDocument doc_three)) =
     (Inl (Error ''Entry with ID zz not found''), world_with (JsonDocument doc_three))"
    using updateEntry_merges [OF steady_world_with, of 0 doc_three "''zz''" "update_value ''By the day''"]
      n by simp
  ultimately show ?thesis
    using steady_world_with [of doc_three] by blast
qed

section \<open>The invariant of the stored document\<close>

text \<open>
  The store itself does not validate what it is given. On a document that satisfies
  the invariant, \<open>createEntry\<close> with a key of white space persists an entry with an
  empty key, \<open>updateEntry\<close> with a value of white space persists that value, and
  \<open>createEntry\<close> persists a second entry with an id that is already stored when
  \<open>generateId\<close> returns that id.
\<close>

theorem store_accepts_blank_and_duplicate:
  "persisted_invariant (world_with (JsonDocument doc_three)) \<and>
   \<not> persisted_invariant
       (snd (createEntry ''   '' ''text'' [] (world_with (JsonDocument doc_three)))) \<and>
   \<not> persisted_invariant
       (snd (updateEntry ''a1'' (update_value '' '') (world_with (JsonDocument doc_three)))) \<and>
   persisted_invariant (world_with (JsonDocument doc_rs)) \<and>
   \<not> persisted_invariant
       (snd (createEntry ''Terms'' ''Net thirty'' [] (world_with (JsonDocument doc_rs))))"
proof -
  let ?w = "world_with (JsonDocument doc_three)"
  let ?v = "world_with (JsonDocument doc_rs)"
  have sw: "steady ?w doc_three" and sv: "steady ?v doc_rs"
    by (rule steady_world_with)+
  have blank: "trim ''   '' = []" "trim '' '' = []" "trim [] = []"
    by code_simp+
  have 1: "persisted_invariant ?w"
    unfolding persisted_steady [OF sw] by code_simp
  have 2: "\<not> persisted_invariant (snd (createEntry ''   '' ''text'' [] ?w))"
  proof -
    from createEntry_steady [OF sw load_document [OF sw],
        where key = "''   ''" and val = "''text''" and tags = "[]"]
    obtain e w' d' where "createEntry ''   '' ''text'' [] ?w = (Inr e, w')"
      "entry_key e = trim ''   ''" "steady w' d'" "entries d' = entries doc_three @ [e]"
      by auto
    then show ?thesis
      by (auto simp: persisted_steady doc_invariant_def blank)
  qed
  have 3: "\<not> persisted_invariant (snd (updateEntry ''a1'' (update_value '' '') ?w))"
  proof -
    have i: "0 < length (entries doc_three)" "entry_id (entries doc_three ! 0) = ''a1''"
      "\<forall>j < 0. entry_id (entries doc_three ! j) \<noteq> ''a1''"
      by (simp_all add: doc_three_def entry_pricing_def)
    let ?e = "(spread (entries doc_three ! 0) (update_value '' ''))
                \<lparr>entry_id := ''a1'', updatedAt := clock ?w\<rparr>"
    from updateEntry_steady [OF sw i, where u = "update_value '' ''"]
    obtain w' d' where r: "updateEntry ''a1'' (update_value '' '') ?w = (Inr ?e, w')"
      and st: "steady w' d'" and es: "entries d' = (entries doc_three)[0 := ?e]"
      by blast
    have v: "trim (entry_value ?e) = []"
      by (simp add: spread_def update_value_def blank)
    have m: "?e \<in> set (entries d')"
      unfolding es by (simp add: doc_three_def)
    have "\<not> doc_invariant d'"
      unfolding doc_invariant_def using v m by blast
    then show ?thesis
      unfolding r snd_conv persisted_steady [OF st] .
  qed
  have 4: "persisted_invariant ?v"
    unfolding persisted_steady [OF sv] by code_simp
  have 5: "\<not> persisted_invariant (snd (createEntry ''Terms'' ''Net thirty'' [] ?v))"
  proof -
    have g: "fst (generateId ?v) = ''rs''"
      by code_simp
    from createEntry_steady [OF sv load_document [OF sv],
        where key = "''Terms''" and val = "''Net thirty''" and tags = "[]"]
    obtain e w' d' where r: "createEntry ''Terms'' ''Net thirty'' [] ?v = (Inr e, w')"
      and ide: "entry_id e = fst (generateId ?v)" and st: "steady w' d'"
      and es: "entries d' = entries doc_rs @ [e]"
      by auto
    have "entry_id e = ''rs''"
      using ide g by simp
    then have "map entry_id (entries d') = [''rs'', ''rs'']"
      unfolding es by (simp add: doc_rs_def)
    then have "\<not> doc_invariant d'"
      unfolding doc_invariant_def by simp
    then show ?thesis
      unfolding r snd_conv persisted_steady [OF st] .
  qed
  from 1 2 3 4 5 show ?thesis by blast
qed

text \<open>
  Claim C9, amended. Let the knowledge file hold a document in which ids are unique and
  no key or value is blank, and let no file-system call fail. Then the document that
  the store persists satisfies the same invariant after \<open>createEntry\<close> when the
  trimmed key and the trimmed value are not empty and \<open>generateId\<close> returns an id that
  is not stored yet; after \<open>updateEntry\<close> when the key and the value in \<open>updates\<close>, if
  present, are not blank; and after \<open>deleteEntry\<close> always. The conditions on key and
  value are what the HTTP handlers check before they call the store; the store does
  not check them.
\<close>

theorem store_invariant_preserved:
  assumes s: "steady w d" and inv: "doc_invariant d"
  shows "(trim key \<noteq> [] \<and> trim val \<noteq> [] \<and>
          fst (generateId w) \<notin> entry_id ` set (entries d) \<longrightarrow>
            (\<exists>e w' d'. createEntry key val tags w = (Inr e, w') \<and>
               steady w' d' \<and> doc_invariant d'))
       \<and> ((\<forall>k. upd_key u = Some k \<longrightarrow> trim k \<noteq> []) \<and>
          (\<forall>v. upd_value u = Some v \<longrightarrow> trim v \<noteq> []) \<longrightarrow>
            (\<exists>r w' d'. updateEntry ident u w = (r, w') \<and> steady w' d' \<and> doc_invariant d'))
       \<and> (\<exists>r w' d'. deleteEntry ident w = (r, w') \<and> steady w' d' \<and> doc_invariant d')"
proof (intro conjI impI)
  assume a: "trim key \<noteq> [] \<and> trim val \<noteq> [] \<and>
          fst (generateId w) \<notin> entry_id ` set (entries d)"
  from createEntry_steady [OF s load_document [OF s], of key val tags]
  obtain e w' d' where c: "createEntry key val tags w = (Inr e, w')"
    and e: "entry_id e = fst (generateId w)" "entry_key e = trim key" "entry_value e = trim val"
    and st: "steady w' d'" and es: "entries d' = entries d @ [e]"
    by auto
  have "doc_invariant d'"
    using inv a e by (auto simp: doc_invariant_def es trim_idem)
  with c st show "\<exists>e w' d'. createEntry key val tags w = (Inr e, w') \<and>
               steady w' d' \<and> doc_invariant d'"
    by blast
next
  assume a: "(\<forall>k. upd_key u = Some k \<longrightarrow> trim k \<noteq> []) \<and>
          (\<forall>v. upd_value u = Some v \<longrightarrow> trim v \<noteq> [])"
  show "\<exists>r w' d'. updateEntry ident u w = (r, w') \<and> steady w' d' \<and> doc_invariant d'"
  proof (cases "\<exists>e \<in> set (entries d). entry_id e = ident")
    case False
    then have "updateEntry ident u w =
        (Inl (Error (''Entry with ID '' @ ident @ '' not found'')), w)"
      by (intro updateEntry_unknown [OF s]) simp
    with s inv show ?thesis by blast
  next
    case True
    from first_index [OF True] obtain i where i: "i < length (entries d)"
      "entry_id (entries d ! i) = ident" "\<forall>j < i. entry_id (entries d ! j) \<noteq> ident"
      by blast
    let ?e = "(spread (entries d ! i) u)\<lparr>entry_id := ident, updatedAt := clock w\<rparr>"
    from updateEntry_steady [OF s i, of u]
    obtain w' d' where r: "updateEntry ident u w = (Inr ?e, w')" and st: "steady w' d'"
      and es: "entries d' = (entries d)[i := ?e]"
      by blast
    have old: "trim (entry_key (entries d ! i)) \<noteq> []" "trim (entry_value (entries d ! i)) \<noteq> []"
      using inv i(1) by (auto simp: doc_invariant_def)
    have new: "trim (entry_key ?e) \<noteq> [] \<and> trim (entry_value ?e) \<noteq> []"
      using a old by (auto simp: spread_def split: option.splits)
    have "distinct (map entry_id (entries d'))"
      unfolding es using inv i(1,2)
      by (intro distinct_list_update_same) (simp_all add: doc_invariant_def)
    moreover have "\<forall>e \<in> set (entries d'). trim (entry_key e) \<noteq> [] \<and> trim (entry_value e) \<noteq> []"
    proof
      fix e assume "e \<in> set (entries d')"
      then have "e = ?e \<or> e \<in> set (entries d)"
        unfolding es using set_update_subset_insert [of "entries d" i ?e] by auto
      with new inv show "trim (entry_key e) \<noteq> [] \<and> trim (entry_value e) \<noteq> []"
        by (auto simp: doc_invariant_def)
    qed
    ultimately have "doc_invariant d'"
      by (simp add: doc_invariant_def)
    with r st show ?thesis by blast
  qed
next
  show "\<exists>r w' d'. deleteEntry ident w = (r, w') \<and> steady w' d' \<and> doc_invariant d'"
  proof (cases "\<exists>e \<in> set (entries d). entry_id e = ident")
    case False
    then have "deleteEntry ident w =
        (Inl (Error (''Entry with ID '' @ ident @ '' not found'')), w)"
      by (intro deleteEntry_unknown [OF s]) simp
    with s inv show ?thesis by blast
  next
    case True
    from first_index [OF True] obtain i where i: "i < length (entries d)"
      "entry_id (entries d ! i) = ident" "\<forall>j < i. entry_id (entries d ! j) \<noteq> ident"
      by blast
    from deleteEntry_steady [OF s i]
    obtain w' d' where r: "deleteEntry ident w = (Inr (entries d ! i), w')"
      and st: "steady w' d'"
      and es: "entries d' = take i (entries d) @ drop (Suc i) (entries d)"
      by blast
    have "distinct (map entry_id (entries d'))"
      unfolding es using inv by (intro distinct_remove_nth) (simp add: doc_invariant_def)
    moreover have "set (entries d') \<subseteq> set (entries d)"
      unfolding es using set_take_subset [of i "entries d"] set_drop_subset [of "Suc i" "entries d"]
      by auto
    ultimately have "doc_invariant d'"
      using inv by (auto simp: doc_invariant_def)
    with r st show ?thesis by blast
  qed
qed

theorem store_invariant_preserved_witness:
  "steady (world_with (JsonDocument doc_three)) doc_three \<and>
   doc_invariant doc_three \<and>
   (\<exists>e w' d'. createEntry ''FAQ'' ''We ship worldwide'' [''shipping'']
                 (world_with (JsonDocument doc_three)) = (Inr e, w') \<and>
      steady w' d' \<and> doc_invariant d') \<and>
   (\<exists>r w' d'. updateEntry ''a1'' (update_value ''By the day'')
                 (world_with (JsonDocument doc_three)) = (r, w') \<and>
      steady w' d' \<and> doc_invariant d') \<and>
   (\<exists>r w' d'. deleteEntry ''b2'' (world_with (JsonDocument doc_three)) = (r, w') \<and>
      steady w' d' \<and> doc_invariant d')"
proof -
  have s: "steady (world_with (JsonDocument doc_three)) doc_three"
    by (rule steady_world_with)
  have inv: "doc_invariant doc_three"
    by code_simp
  have c: "trim ''FAQ'' \<noteq> [] \<and> trim ''We ship worldwide'' \<noteq> [] \<and>
      fst (generateId (world_with (JsonDocument doc_three))) \<notin> entry_id ` set (entries doc_three)"
    by code_simp
  have t: "trim ''By the day'' \<noteq> []"
    by code_simp
  have u: "(\<forall>k. upd_key (update_value ''By the day'') = Some k \<longrightarrow> trim k \<noteq> []) \<and>
      (\<forall>v. upd_value (update_value ''By the day'') = Some v \<longrightarrow> trim v \<noteq> [])"
    using t by (simp add: update_value_def)
  show ?thesis
    using s inv c u
      store_invariant_preserved [OF s inv,
        where key = "''FAQ''" and val = "''We ship worldwide''" and tags = "[''shipping'']"
          and u = "update_value ''By the day''" and ident = "''a1''"]
      store_invariant_preserved [OF s inv,
        where key = "''FAQ''" and val = "''We ship worldwide''" and tags = "[''shipping'']"
          and u = "update_value ''By the day''" and ident = "''b2''"]
    by blast
qed

section \<open>Reads that write\<close>

text \<open>
  A read can leave the knowledge file unchanged although the file does not hold a
  document: a file that holds \<open>{}\<close> or \<open>null\<close> is parseable, fails the test of its
  \<open>entries\<close> in every one of the three attempts, and the read throws after waiting
  100 and 200 milliseconds, with every file as it was.
\<close>

theorem read_of_malformed_file_leaves_it:
  "run_read GetAllEntries (world_with (JsonOther ''{}'')) =
     (False, (world_with (JsonOther ''{}''))\<lparr>clock := 1300, slept := [100, 200]\<rparr>) \<and>
   files (snd (run_read GetAllEntries (world_with (JsonOther ''{}'')))) =
     files (world_with (JsonOther ''{}'')) \<and>
   map_of (files (world_with (JsonOther ''{}''))) KnowledgeFile = Some (JsonOther ''{}'') \<and>
   run_read GetStats (world_with JsonNull) =
     (False, (world_with JsonNull)\<lparr>clock := 1300, slept := [100, 200]\<rparr>) \<and>
   files (snd (run_read GetStats (world_with JsonNull))) = files (world_with JsonNull) \<and>
   map_of (files (world_with JsonNull)) KnowledgeFile = Some JsonNull"
  by code_simp

text \<open>
  Claim C10, amended. The read operations of the store (\<open>getAllEntries\<close>,
  \<open>getEntryById\<close>, \<open>searchEntries\<close>, \<open>getRelevantContext\<close>, \<open>getStats\<close>) all load the
  document, and loading writes: when no file-system call fails, each of them returns
  and leaves in the knowledge file a new empty document when the file was absent, the
  migrated document when the file held a bare array, and the reset document
  (\<open>recovered\<close>) when the file was not parseable. When the file holds a document they
  return and leave every file as it was. A read that returns has left the knowledge
  file unchanged only when the file held a document; a read of a file that holds
  \<open>null\<close> or another JSON value that is not a document throws, and leaves every file
  as it was too.
\<close>

theorem reads_persist_on_load:
  assumes q: "faults w = []"
  shows "(map_of (files w) KnowledgeFile = None \<longrightarrow>
            (\<exists>w' t. run_read op w = (True, w') \<and>
               map_of (files w') KnowledgeFile = Some (JsonDocument (fresh_doc [] t False))))
       \<and> (map_of (files w) KnowledgeFile = Some (JsonArray es) \<longrightarrow>
            (\<exists>w' t. run_read op w = (True, w') \<and>
               map_of (files w') KnowledgeFile = Some (JsonDocument (fresh_doc es t False))))
       \<and> (map_of (files w) KnowledgeFile = Some (Unparseable s) \<longrightarrow>
            (\<exists>w' t. run_read op w = (True, w') \<and>
               map_of (files w') KnowledgeFile = Some (JsonDocument (fresh_doc [] t True))))
       \<and> (map_of (files w) KnowledgeFile = Some (JsonDocument d) \<longrightarrow>
            (\<exists>w'. run_read op w = (True, w') \<and> files w' = files w))
       \<and> (map_of (files w) KnowledgeFile = Some JsonNull \<or>
          map_of (files w) KnowledgeFile = Some (JsonOther s) \<longrightarrow>
            (\<exists>w'. run_read op w = (False, w') \<and> files w' = files w))
       \<and> (run_read op w = (True, v) \<and>
          map_of (files v) KnowledgeFile = map_of (files w) KnowledgeFile \<longrightarrow>
            (\<exists>d. map_of (files w) KnowledgeFile = Some (JsonDocument d)))"
proof -
  have absent: "\<exists>w' t. run_read op w = (True, w') \<and>
      map_of (files w') KnowledgeFile = Some (JsonDocument (fresh_doc [] t False))"
    if f: "map_of (files w) KnowledgeFile = None"
  proof -
    from load_absent [OF q f] obtain t w' where
      "loadKnowledgeBase w = (Inr (fresh_doc [] t False), w')" "steady w' (fresh_doc [] t False)"
      by blast
    then show ?thesis
      using run_read_load [OF q, of "Inr (fresh_doc [] t False)" w' op]
      by (auto simp: steady_def)
  qed
  have legacy: "\<exists>w' t. run_read op w = (True, w') \<and>
      map_of (files w') KnowledgeFile = Some (JsonDocument (fresh_doc es t False))"
    if f: "map_of (files w) KnowledgeFile = Some (JsonArray es)" for es
  proof -
    from load_legacy [OF q f] obtain t w' where
      "loadKnowledgeBase w = (Inr (fresh_doc es t False), w')" "steady w' (fresh_doc es t False)"
      by blast
    then show ?thesis
      using run_read_load [OF q, of "Inr (fresh_doc es t False)" w' op]
      by (auto simp: steady_def)
  qed
  have corrupt: "\<exists>w' t. run_read op w = (True, w') \<and>
      map_of (files w') KnowledgeFile = Some (JsonDocument (fresh_doc [] t True))"
    if f: "map_of (files w) KnowledgeFile = Some (Unparseable s)" for s
  proof -
    from load_unparseable [OF q f] obtain t w' where
      "loadKnowledgeBase w = (Inr (fresh_doc [] t True), w')" "steady w' (fresh_doc [] t True)"
      by blast
    then show ?thesis
      using run_read_load [OF q, of "Inr (fresh_doc [] t True)" w' op]
      by (auto simp: steady_def)
  qed
  have document: "\<exists>w'. run_read op w = (True, w') \<and> files w' = files w"
    if f: "map_of (files w) KnowledgeFile = Some (JsonDocument d)" for d
  proof -
    have "load_try w = (Inr d, w\<lparr>dirs := insert DataDir (dirs w)\<rparr>)"
      using load_try_quiet [OF q] f by (simp add: Let_def)
    then have "loadKnowledgeBase w = (Inr d, w\<lparr>dirs := insert DataDir (dirs w)\<rparr>)"
      unfolding loadKnowledgeBase_def
      by (subst loadKnowledgeBase_loop.simps) (simp add: kbMaxRetries_def)
    then show ?thesis
      using run_read_load [OF q, of "Inr d" "w\<lparr>dirs := insert DataDir (dirs w)\<rparr>" op]
      by simp
  qed
  have malformed: "\<exists>w'. run_read op w = (False, w') \<and> files w' = files w"
    if f: "map_of (files w) KnowledgeFile = Some JsonNull \<or>
           map_of (files w) KnowledgeFile = Some (JsonOther s)" for s
  proof -
    from load_malformed [OF q f] obtain m where
      "loadKnowledgeBase w = (Inl (Error m),
         w\<lparr>dirs := insert DataDir (dirs w), clock := clock w + 300,
           slept := slept w @ [100, 200]\<rparr>)"
      by blast
    then show ?thesis
      using run_read_load [OF q, of "Inl (Error m)" _ op] by simp
  qed
  have only: "\<exists>d. map_of (files w) KnowledgeFile = Some (JsonDocument d)"
    if r: "run_read op w = (True, v)"
      and same: "map_of (files v) KnowledgeFile = map_of (files w) KnowledgeFile"
  proof (cases "map_of (files w) KnowledgeFile")
    case None
    from absent [OF None] r same None show ?thesis by auto
  next
    case (Some c)
    show ?thesis
    proof (cases c)
      case (Unparseable s)
      from corrupt [OF Some [unfolded Unparseable]] r same Some Unparseable
      show ?thesis by auto
    next
      case (JsonArray es)
      from legacy [OF Some [unfolded JsonArray]] r same Some JsonArray
      show ?thesis by auto
    next
      case (JsonDocument d)
      with Some show ?thesis by simp
    next
      case JsonNull
      from malformed [of undefined] Some JsonNull r show ?thesis by auto
    next
      case (JsonOther s)
      from malformed [of s] Some JsonOther r show ?thesis by auto
    qed
  qed
  from absent legacy corrupt document malformed only show ?thesis
    by blast
qed

theorem reads_persist_on_load_witness:
  "faults world_empty = [] \<and>
   map_of (files world_empty) KnowledgeFile = None \<and>
   (\<exists>w' t. run_read GetStats world_empty = (True, w') \<and>
      map_of (files w') KnowledgeFile = Some (JsonDocument (fresh_doc [] t False))) \<and>
   (\<exists>w' t. run_read (GetEntryById ''a1'') (world_with (JsonArray [entry_pricing])) = (True, w') \<and>
      map_of (files w') KnowledgeFile = Some (JsonDocument (fresh_doc [entry_pricing] t False))) \<and>
   (\<exists>w' t. run_read (SearchEntries ''pricing'' 5) (world_with (Unparseable ''{oops'')) = (True, w') \<and>
      map_of (files w') KnowledgeFile = Some (JsonDocument (fresh_doc [] t True))) \<and>
   (\<exists>w'. run_read (GetRelevantContext ''pricing'' 3) (world_with (JsonDocument doc_three)) =
           (True, w') \<and>
      files w' = files (world_with (JsonDocument doc_three))) \<and>
   (\<exists>w'. run_read GetAllEntries (world_with (JsonOther ''{}'')) = (False, w') \<and>
      files w' = files (world_with (JsonOther ''{}'')))"
proof -
  have q: "faults world_empty = []" "faults (world_with c) = []" for c
    by (simp_all add: world_with_def world_empty_def)
  have f: "map_of (files world_empty) KnowledgeFile = None"
    "map_of (files (world_with c)) KnowledgeFile = Some c" for c
    by (simp_all add: world_with_def world_empty_def)
  have 1: "\<exists>w' t. run_read GetStats world_empty = (True, w') \<and>
      map_of (files w') KnowledgeFile = Some (JsonDocument (fresh_doc [] t False))"
    using reads_persist_on_load [OF q(1), where op = GetStats] f(1) by simp
  have 2: "\<exists>w' t. run_read (GetEntryById ''a1'') (world_with (JsonArray [entry_pricing])) = (True, w') \<and>
      map_of (files w') KnowledgeFile = Some (JsonDocument (fresh_doc [entry_pricing] t False))"
    using reads_persist_on_load [OF q(2) [of "JsonArray [entry_pricing]"],
        where op = "GetEntryById ''a1''" and es = "[entry_pricing]"]
      f(2) [of "JsonArray [entry_pricing]"]
    by simp
  have 3: "\<exists>w' t. run_read (SearchEntries ''pricing'' 5) (world_with (Unparseable ''{oops'')) = (True, w') \<and>
      map_of (files w') KnowledgeFile = Some (JsonDocument (fresh_doc [] t True))"
    using reads_persist_on_load [OF q(2) [of "Unparseable ''{oops''"],
        where op = "SearchEntries ''pricing'' 5" and s = "''{oops''"]
      f(2) [of "Unparseable ''{oops''"]
    by simp
  have 4: "\<exists>w'. run_read (GetRelevantContext ''pricing'' 3) (world_with (JsonDocument doc_three)) =
           (True, w') \<and>
      files w' = files (world_with (JsonDocument doc_three))"
    using reads_persist_on_load [OF q(2) [of "JsonDocument doc_three"],
        where op = "GetRelevantContext ''pricing'' 3" and d = doc_three]
      f(2) [of "JsonDocument doc_three"]
    by simp
  have 5: "\<exists>w'. run_read GetAllEntries (world_with (JsonOther ''{}'')) = (False, w') \<and>
      files w' = files (world_with (JsonOther ''{}''))"
    using reads_persist_on_load [OF q(2) [of "JsonOther ''{}''"],
        where op = GetAllEntries and s = "''{}''"]
      f(2) [of "JsonOther ''{}''"]
    by simp
  from q(1) f(1) 1 2 3 4 5 show ?thesis
    by (intro conjI)
qed

end
